theory Spec2Isabelle
  imports Main "HOL-Library.Word"
begin

section \<open>Strings and numbers of the source language\<close>

text \<open>
  The program is TypeScript. A string is modelled as a \<^typ>\<open>string\<close>; the functions below only
  inspect ASCII characters. A \<open>number\<close> that holds a line number, a length or a pull-request
  number is modelled as an unbounded \<^typ>\<open>int\<close>, which is exact below \<open>2^53\<close>.
\<close>

definition startsWith :: "string \<Rightarrow> string \<Rightarrow> bool" where
  \<comment> \<open>\<open>s.startsWith(p)\<close>\<close>
  "startsWith s p = (take (length p) s = p)"

fun splitOn :: "char \<Rightarrow> string \<Rightarrow> string list" where
  \<comment> \<open>\<open>s.split(d)\<close> for a one-character separator: the empty string splits into \<open>['']\<close>\<close>
  "splitOn d [] = [[]]"
| "splitOn d (c # cs) =
     (if c = d then [] # splitOn d cs
      else (case splitOn d cs of [] \<Rightarrow> [[c]] | l # ls \<Rightarrow> (c # l) # ls))"

definition isDigit :: "char \<Rightarrow> bool" where
  \<comment> \<open>the class \<open>\d\<close> of a regular expression without the unicode flag\<close>
  "isDigit c = (c \<in> set ''0123456789'')"

definition digitVal :: "char \<Rightarrow> int" where
  "digitVal c = int (of_char c) - 48"

definition parseInt :: "string \<Rightarrow> int" where
  \<comment> \<open>\<open>parseInt(ds, 10)\<close> on a non-empty string of decimal digits\<close>
  "parseInt ds = foldl (\<lambda>a c. 10 * a + digitVal c) 0 ds"

definition expectLit :: "string \<Rightarrow> string \<Rightarrow> string option" where
  \<comment> \<open>a literal piece of a regular expression: the rest of the input after it\<close>
  "expectLit p s = (if startsWith s p then Some (drop (length p) s) else None)"

definition digitsPlus :: "string \<Rightarrow> (string \<times> string) option" where
  \<comment> \<open>\<open>(\d+)\<close>, greedy: the longest run of digits, which must not be empty\<close>
  "digitsPlus s =
     (if takeWhile isDigit s = [] then None
      else Some (takeWhile isDigit s, dropWhile isDigit s))"

definition optCommaDigits :: "string \<Rightarrow> string option \<times> string" where
  \<comment> \<open>\<open>(?:,(\d+))?\<close>: the group is taken when a comma and at least one digit follow\<close>
  "optCommaDigits s =
     (case s of
        [] \<Rightarrow> (None, s)
      | c # r \<Rightarrow>
          (if c = CHR '','' then
             (case digitsPlus r of None \<Rightarrow> (None, s) | Some (ds, r') \<Rightarrow> (Some ds, r'))
           else (None, s)))"

section \<open>The diff parser (\<open>parseDiffToValidLineRanges\<close>)\<close>

record line_range =
  rstart :: int
  rend :: int

type_synonym range_table = "string \<rightharpoonup> line_range list"

datatype error =
    TypeError
  | SyntaxError
  | ApiKeyMissing
  | RequestFailed string
  | ContentNotFound string

text \<open>
  The hunk pattern \<open>/@@ -\d+(?:,\d+)? \+(\d+)(?:,(\d+))? @@/\<close>. Every quantified piece is followed
  by a character outside its class, so backtracking never finds a match that the greedy
  left-to-right reading misses; \<open>hunkAt\<close> is the match anchored at the start of its input and
  \<open>hunkMatch\<close> the leftmost match anywhere in the line, as \<open>String.prototype.match\<close> returns it.
  The result is the pair of capture groups 1 and 2.
\<close>

definition hunkAt :: "string \<Rightarrow> (string \<times> string option) option" where
  "hunkAt s =
     (case expectLit ''@@ -'' s of None \<Rightarrow> None | Some s1 \<Rightarrow>
     (case digitsPlus s1 of None \<Rightarrow> None | Some (_, s2) \<Rightarrow>
     (case optCommaDigits s2 of (_, s3) \<Rightarrow>
     (case expectLit '' +'' s3 of None \<Rightarrow> None | Some s4 \<Rightarrow>
     (case digitsPlus s4 of None \<Rightarrow> None | Some (m1, s5) \<Rightarrow>
     (case optCommaDigits s5 of (m2, s6) \<Rightarrow>
     (case expectLit '' @@'' s6 of None \<Rightarrow> None | Some _ \<Rightarrow> Some (m1, m2))))))))"

fun hunkMatch :: "string \<Rightarrow> (string \<times> string option) option" where
  "hunkMatch [] = hunkAt []"
| "hunkMatch (c # cs) =
     (case hunkAt (c # cs) of Some m \<Rightarrow> Some m | None \<Rightarrow> hunkMatch cs)"

type_synonym parser_state = "range_table \<times> string option"

definition truthy :: "string option \<Rightarrow> bool" where
  \<comment> \<open>a \<open>string | null\<close> used as a condition: \<open>null\<close> and the empty string are false\<close>
  "truthy v = (case v of None \<Rightarrow> False | Some s \<Rightarrow> s \<noteq> [])"

text \<open>
  The table is a plain object, written \<open>{}\<close> in the source and used as a dictionary. The model
  holds its own properties as a map. Reading \<open>ranges[k]\<close> gives the own property when there is
  one; otherwise it gives what the object inherits from \<open>Object.prototype\<close> under that name, a
  function or an object, which is truthy and has neither \<open>push\<close> nor \<open>some\<close>; otherwise it gives
  \<open>undefined\<close>.
\<close>

definition objectPrototypeNames :: "string list" where
  "objectPrototypeNames =
     [''constructor'', ''__defineGetter__'', ''__defineSetter__'', ''hasOwnProperty'',
      ''__lookupGetter__'', ''__lookupSetter__'', ''isPrototypeOf'', ''propertyIsEnumerable'',
      ''toString'', ''valueOf'', ''__proto__'', ''toLocaleString'']"

datatype 'a property = Undefined | OwnValue 'a | InheritedValue

definition getProp :: "(string \<rightharpoonup> 'a) \<Rightarrow> string \<Rightarrow> 'a property" where
  \<comment> \<open>\<open>obj[k]\<close>\<close>
  "getProp obj k =
     (case obj k of
        Some v \<Rightarrow> OwnValue v
      | None \<Rightarrow> if k \<in> set objectPrototypeNames then InheritedValue else Undefined)"

definition push :: "range_table \<Rightarrow> string \<Rightarrow> line_range \<Rightarrow> error + range_table" where
  \<comment> \<open>\<open>ranges[currentFile].push(r)\<close>: a TypeError when the value read is not an array\<close>
  "push ranges f r =
     (case getProp ranges f of
        OwnValue rs \<Rightarrow> Inr (ranges(f \<mapsto> rs @ [r]))
      | InheritedValue \<Rightarrow> Inl TypeError
      | Undefined \<Rightarrow> Inl TypeError)"

definition parseLine :: "parser_state \<Rightarrow> string \<Rightarrow> error + parser_state" where
  \<comment> \<open>the body of the loop over the lines\<close>
  "parseLine st line =
     (case st of (ranges, currentFile) \<Rightarrow>
        if startsWith line ''+++ b/'' then
          (let filePath = drop 6 line in
           if filePath = ''/dev/null'' then Inr (ranges, None)
           else Inr (if getProp ranges filePath = Undefined then ranges(filePath \<mapsto> [])
                     else ranges,
                     Some filePath))
        else if startsWith line ''@@'' \<and> truthy currentFile then
          (case hunkMatch line of
             None \<Rightarrow> Inr st
           | Some (m1, m2) \<Rightarrow>
               (let newStart = parseInt m1;
                    newLength = (case m2 of None \<Rightarrow> 1 | Some d \<Rightarrow> parseInt d)
                in if newLength > 0 then
                     (case push ranges (the currentFile)
                             \<lparr>rstart = newStart, rend = newStart + newLength - 1\<rparr> of
                        Inl e \<Rightarrow> Inl e
                      | Inr ranges' \<Rightarrow> Inr (ranges', currentFile))
                   else Inr st))
        else Inr st)"

fun parseLines :: "parser_state \<Rightarrow> string list \<Rightarrow> error + parser_state" where
  "parseLines st [] = Inr st"
| "parseLines st (l # ls) =
     (case parseLine st l of Inl e \<Rightarrow> Inl e | Inr st' \<Rightarrow> parseLines st' ls)"

definition parseDiffToValidLineRanges :: "string \<Rightarrow> error + range_table" where
  "parseDiffToValidLineRanges diff =
     (case parseLines (Map.empty, None) (splitOn CHR ''\<newline>'' diff) of
        Inl e \<Rightarrow> Inl e
      | Inr (ranges, _) \<Rightarrow> Inr ranges)"

definition hunkRange :: "string \<Rightarrow> line_range option" where
  \<comment> \<open>what the hunk branch of the loop body computes from a line: the range it pushes, if any\<close>
  "hunkRange line =
     (case hunkMatch line of
        None \<Rightarrow> None
      | Some (m1, m2) \<Rightarrow>
          (let newStart = parseInt m1;
               newLength = (case m2 of None \<Rightarrow> 1 | Some d \<Rightarrow> parseInt d)
           in if newLength > 0
              then Some \<lparr>rstart = newStart, rend = newStart + newLength - 1\<rparr> else None))"

definition cursorKnown :: "parser_state \<Rightarrow> bool" where
  \<comment> \<open>the loop invariant: the current file, when there is one, has an entry in the table\<close>
  "cursorKnown st = (case st of (ranges, currentFile) \<Rightarrow>
      (case currentFile of None \<Rightarrow> True | Some f \<Rightarrow> ranges f \<noteq> None))"

definition plainHeader :: "string \<Rightarrow> bool" where
  \<comment> \<open>the line is not the new-file header of a path that names an inherited property\<close>
  "plainHeader l = (startsWith l ''+++ b/'' \<longrightarrow> drop 6 l \<notin> set objectPrototypeNames)"

text \<open>
  The shape of a hunk header as the specification writes it,
  \<open>@@ -<oldStart>[,<oldLen>] +<newStart>[,<newLen>] @@\<close>, followed by any text: the numbers
  are non-empty strings of decimal digits and each length is optional.
\<close>

definition digits :: "string \<Rightarrow> bool" where
  "digits ds = (ds \<noteq> [] \<and> list_all isDigit ds)"

definition optDigits :: "string option \<Rightarrow> bool" where
  "optDigits l = (case l of None \<Rightarrow> True | Some d \<Rightarrow> digits d)"

definition optLen :: "string option \<Rightarrow> string" where
  "optLen l = (case l of None \<Rightarrow> [] | Some d \<Rightarrow> CHR '','' # d)"

definition hunkHeader ::
  "string \<Rightarrow> string option \<Rightarrow> string \<Rightarrow> string option \<Rightarrow> string \<Rightarrow> string" where
  "hunkHeader oldStart oldLen newStart newLen rest =
     ''@@ -'' @ oldStart @ optLen oldLen @ '' +'' @ newStart @ optLen newLen @ '' @@'' @ rest"

section \<open>The review validator (the filter in \<open>handleReview\<close>)\<close>

record ReviewImprovement =
  line :: int
  "file" :: string
  category :: string
  comment :: string
  link :: "string option"

record Review =
  strengths :: "string list"
  improvements :: "ReviewImprovement list"

definition keepImprovement :: "range_table \<Rightarrow> ReviewImprovement \<Rightarrow> error + bool" where
  \<comment> \<open>the callback of \<open>aiReview.improvements.filter\<close>. An array, even an empty one, is truthy;
      so is an inherited value, on which \<open>fileRanges.some\<close> is not a function\<close>
  "keepImprovement changedLineRanges item =
     (case getProp changedLineRanges (file item) of
        Undefined \<Rightarrow> Inr False
      | InheritedValue \<Rightarrow> Inl TypeError
      | OwnValue fileRanges \<Rightarrow>
          Inr (list_ex (\<lambda>r. line item \<ge> rstart r \<and> line item \<le> rend r) fileRanges))"

fun filterE :: "('a \<Rightarrow> error + bool) \<Rightarrow> 'a list \<Rightarrow> error + 'a list" where
  \<comment> \<open>\<open>xs.filter(p)\<close> with a callback that may throw: the first error ends the call\<close>
  "filterE p [] = Inr []"
| "filterE p (x # xs) =
     (case p x of
        Inl e \<Rightarrow> Inl e
      | Inr b \<Rightarrow>
          (case filterE p xs of
             Inl e \<Rightarrow> Inl e
           | Inr ys \<Rightarrow> Inr (if b then x # ys else ys)))"

definition validateReview :: "range_table \<Rightarrow> Review \<Rightarrow> error + Review" where
  \<comment> \<open>\<open>validReview = { ...aiReview, improvements: validImprovements }\<close>; an error thrown in
      the filter is caught by \<open>handleReview\<close>, which then sets no review\<close>
  "validateReview changedLineRanges aiReview =
     (case filterE (keepImprovement changedLineRanges) (improvements aiReview) of
        Inl e \<Rightarrow> Inl e
      | Inr validImprovements \<Rightarrow> Inr (aiReview\<lparr>improvements := validImprovements\<rparr>))"

definition coveredBy :: "range_table \<Rightarrow> ReviewImprovement \<Rightarrow> bool" where
  \<comment> \<open>the condition in the words of the specification\<close>
  "coveredBy t f =
     (\<exists>rs. t (file f) = Some rs \<and> (\<exists>r \<in> set rs. rstart r \<le> line f \<and> line f \<le> rend r))"

section \<open>The URL parser (\<open>parseGitHubUrl\<close>)\<close>

text \<open>
  The pattern \<open>/github\.com\/([^/]+)\/([^/]+)\/pull\/(\d+)/\<close> is not anchored: \<open>urlAt\<close> is the match
  at the start of its input and \<open>urlMatch\<close> the leftmost match anywhere in the string. Each
  group is followed by a character outside its class, so the greedy reading is the only one.
\<close>

record PrData =
  owner :: string
  repo :: string
  pull_number :: int

definition notSlashPlus :: "string \<Rightarrow> (string \<times> string) option" where
  \<comment> \<open>\<open>([^/]+)\<close>, greedy: the longest run of characters other than a slash, not empty\<close>
  "notSlashPlus s =
     (if takeWhile (\<lambda>c. c \<noteq> CHR ''/'') s = [] then None
      else Some (takeWhile (\<lambda>c. c \<noteq> CHR ''/'') s, dropWhile (\<lambda>c. c \<noteq> CHR ''/'') s))"

definition urlAt :: "string \<Rightarrow> (string \<times> string \<times> string) option" where
  "urlAt s =
     (case expectLit ''github.com/'' s of None \<Rightarrow> None | Some s1 \<Rightarrow>
     (case notSlashPlus s1 of None \<Rightarrow> None | Some (m1, s2) \<Rightarrow>
     (case expectLit ''/'' s2 of None \<Rightarrow> None | Some s3 \<Rightarrow>
     (case notSlashPlus s3 of None \<Rightarrow> None | Some (m2, s4) \<Rightarrow>
     (case expectLit ''/pull/'' s4 of None \<Rightarrow> None | Some s5 \<Rightarrow>
     (case digitsPlus s5 of None \<Rightarrow> None | Some (m3, _) \<Rightarrow> Some (m1, m2, m3)))))))"

fun urlMatch :: "string \<Rightarrow> (string \<times> string \<times> string) option" where
  "urlMatch [] = urlAt []"
| "urlMatch (c # cs) =
     (case urlAt (c # cs) of Some m \<Rightarrow> Some m | None \<Rightarrow> urlMatch cs)"

definition parseGitHubUrl :: "string \<Rightarrow> PrData option" where
  "parseGitHubUrl url =
     (case urlMatch url of
        None \<Rightarrow> None
      | Some (m1, m2, m3) \<Rightarrow> Some \<lparr>owner = m1, repo = m2, pull_number = parseInt m3\<rparr>)"

definition specUrlForm :: "string \<Rightarrow> bool" where
  \<comment> \<open>the format in the words of the specification, \<open>https://<host>/<owner>/<repo>/pull/<digits>\<close>,
      each of host, owner and repo a non-empty segment without a slash\<close>
  "specUrlForm url =
     (case expectLit ''https://'' url of None \<Rightarrow> False | Some s1 \<Rightarrow>
     (case notSlashPlus s1 of None \<Rightarrow> False | Some (_, s2) \<Rightarrow>
     (case expectLit ''/'' s2 of None \<Rightarrow> False | Some s3 \<Rightarrow>
     (case notSlashPlus s3 of None \<Rightarrow> False | Some (_, s4) \<Rightarrow>
     (case expectLit ''/'' s4 of None \<Rightarrow> False | Some s5 \<Rightarrow>
     (case notSlashPlus s5 of None \<Rightarrow> False | Some (_, s6) \<Rightarrow>
     (case expectLit ''/pull/'' s6 of None \<Rightarrow> False | Some s7 \<Rightarrow>
     (case digitsPlus s7 of None \<Rightarrow> False | Some (_, s8) \<Rightarrow> s8 = []))))))))"

section \<open>JSON text (\<open>JSON.parse\<close>)\<close>

text \<open>
  \<open>JSON.parse\<close> belongs to the platform. It is modelled by the JSON grammar: a scanner that
  reads the text character by character into tokens, and a parser that builds the value with
  an explicit stack of the arrays and objects still open. A number keeps its text. A string
  holds its characters with the escapes resolved, a \<open>\u\<close> escape above 127 as the UTF-8 bytes
  of its code unit. \<open>None\<close> stands for the SyntaxError that \<open>JSON.parse\<close> throws.
\<close>

datatype json =
    JNull
  | JBool bool
  | JNumber string
  | JString string
  | JArray "json list"
  | JObject "(string \<times> json) list"

datatype token =
    TLBrace | TRBrace | TLBracket | TRBracket | TColon | TComma
  | TString string | TNumber string | TTrue | TFalse | TNull

datatype lexmode =
    Idle
  | InString string
  | InEscape string
  | InUnicode nat nat string
  | InWord string

definition isSpace :: "char \<Rightarrow> bool" where
  "isSpace c = (c = CHR '' '' \<or> c = CHR 0x09 \<or> c = CHR 0x0A \<or> c = CHR 0x0D)"

definition isLetter :: "char \<Rightarrow> bool" where
  "isLetter c =
     (((97::nat) \<le> of_char c \<and> of_char c \<le> (122::nat)) \<or>
      ((65::nat) \<le> of_char c \<and> of_char c \<le> (90::nat)))"

definition isWordChar :: "char \<Rightarrow> bool" where
  \<comment> \<open>the characters of numbers and of the literals \<open>true\<close>, \<open>false\<close>, \<open>null\<close>\<close>
  "isWordChar c = (isDigit c \<or> c \<in> set ''+-.'' \<or> isLetter c)"

definition validExp :: "string \<Rightarrow> bool" where
  "validExp r =
     (case r of
        [] \<Rightarrow> True
      | c # r' \<Rightarrow>
          (c = CHR ''e'' \<or> c = CHR ''E'') \<and>
          (let ds = (case r' of
                       [] \<Rightarrow> []
                     | s # t \<Rightarrow> if s = CHR ''+'' \<or> s = CHR ''-'' then t else r')
           in ds \<noteq> [] \<and> list_all isDigit ds))"

definition validFrac :: "string \<Rightarrow> bool" where
  "validFrac r =
     (case r of
        [] \<Rightarrow> True
      | c # r' \<Rightarrow>
          if c = CHR ''.'' then takeWhile isDigit r' \<noteq> [] \<and> validExp (dropWhile isDigit r')
          else validExp r)"

definition validNumber :: "string \<Rightarrow> bool" where
  \<comment> \<open>\<open>-? (0 | [1-9][0-9]*) (. [0-9]+)? ([eE] [+-]? [0-9]+)?\<close>\<close>
  "validNumber w =
     (case (case w of [] \<Rightarrow> [] | c # r \<Rightarrow> if c = CHR ''-'' then r else w) of
        [] \<Rightarrow> False
      | c # r \<Rightarrow>
          if c = CHR ''0'' then validFrac r
          else isDigit c \<and> validFrac (dropWhile isDigit r))"

definition wordToken :: "string \<Rightarrow> token option" where
  "wordToken w =
     (if w = ''true'' then Some TTrue
      else if w = ''false'' then Some TFalse
      else if w = ''null'' then Some TNull
      else if validNumber w then Some (TNumber w)
      else None)"

definition hexVal :: "char \<Rightarrow> nat option" where
  "hexVal c =
     (let n = (of_char c :: nat) in
      if 48 \<le> n \<and> n \<le> 57 then Some (n - 48)
      else if 97 \<le> n \<and> n \<le> 102 then Some (n - 87)
      else if 65 \<le> n \<and> n \<le> 70 then Some (n - 55)
      else None)"

definition utf8 :: "nat \<Rightarrow> string" where
  "utf8 n =
     (if n < 128 then [char_of n]
      else if n < 2048 then [char_of (192 + n div 64), char_of (128 + n mod 64)]
      else [char_of (224 + n div 4096), char_of (128 + (n div 64) mod 64),
            char_of (128 + n mod 64)])"

definition lexIdle :: "char \<Rightarrow> (token list \<times> lexmode) option" where
  "lexIdle c =
     (if isSpace c then Some ([], Idle)
      else if c = CHR ''{'' then Some ([TLBrace], Idle)
      else if c = CHR ''}'' then Some ([TRBrace], Idle)
      else if c = CHR ''['' then Some ([TLBracket], Idle)
      else if c = CHR '']'' then Some ([TRBracket], Idle)
      else if c = CHR '':'' then Some ([TColon], Idle)
      else if c = CHR '','' then Some ([TComma], Idle)
      else if c = CHR 0x22 then Some ([], InString [])
      else if isWordChar c then Some ([], InWord [c])
      else None)"

definition lexEscape :: "string \<Rightarrow> char \<Rightarrow> (token list \<times> lexmode) option" where
  "lexEscape acc c =
     (if c = CHR 0x22 \<or> c = CHR 0x5C \<or> c = CHR ''/'' then Some ([], InString (c # acc))
      else if c = CHR ''b'' then Some ([], InString (CHR 0x08 # acc))
      else if c = CHR ''f'' then Some ([], InString (CHR 0x0C # acc))
      else if c = CHR ''n'' then Some ([], InString (CHR 0x0A # acc))
      else if c = CHR ''r'' then Some ([], InString (CHR 0x0D # acc))
      else if c = CHR ''t'' then Some ([], InString (CHR 0x09 # acc))
      else if c = CHR ''u'' then Some ([], InUnicode 4 0 acc)
      else None)"

fun lexStep :: "lexmode \<Rightarrow> char \<Rightarrow> (token list \<times> lexmode) option" where
  "lexStep Idle c = lexIdle c"
| "lexStep (InString acc) c =
     (if c = CHR 0x22 then Some ([TString (rev acc)], Idle)
      else if c = CHR 0x5C then Some ([], InEscape acc)
      else if (of_char c :: nat) < 32 then None
      else Some ([], InString (c # acc)))"
| "lexStep (InEscape acc) c = lexEscape acc c"
| "lexStep (InUnicode k v acc) c =
     (case hexVal c of
        None \<Rightarrow> None
      | Some h \<Rightarrow>
          if k \<le> 1 then Some ([], InString (rev (utf8 (16 * v + h)) @ acc))
          else Some ([], InUnicode (k - 1) (16 * v + h) acc))"
| "lexStep (InWord acc) c =
     (if isWordChar c then Some ([], InWord (c # acc))
      else (case wordToken (rev acc) of
              None \<Rightarrow> None
            | Some t \<Rightarrow>
                (case lexIdle c of None \<Rightarrow> None | Some (ts, m) \<Rightarrow> Some (t # ts, m))))"

fun lexAll :: "lexmode \<Rightarrow> string \<Rightarrow> token list option" where
  "lexAll m [] =
     (case m of
        Idle \<Rightarrow> Some []
      | InWord acc \<Rightarrow> (case wordToken (rev acc) of None \<Rightarrow> None | Some t \<Rightarrow> Some [t])
      | _ \<Rightarrow> None)"
| "lexAll m (c # cs) =
     (case lexStep m c of
        None \<Rightarrow> None
      | Some (ts, m') \<Rightarrow>
          (case lexAll m' cs of None \<Rightarrow> None | Some ts' \<Rightarrow> Some (ts @ ts')))"

datatype frame =
    FArray "json list"
  | FObject "(string \<times> json) list" "string option"

datatype phase = PValue | PFirstElem | PFirstKey | PKey | PColon | PAfter | PDone json

fun complete :: "json \<Rightarrow> frame list \<Rightarrow> (frame list \<times> phase) option" where
  \<comment> \<open>a finished value goes into the innermost open array or object, or is the result\<close>
  "complete v [] = Some ([], PDone v)"
| "complete v (FArray vs # st) = Some (FArray (v # vs) # st, PAfter)"
| "complete v (FObject ms (Some k) # st) = Some (FObject ((k, v) # ms) None # st, PAfter)"
| "complete v (FObject ms None # st) = None"

definition startValue :: "bool \<Rightarrow> frame list \<Rightarrow> token \<Rightarrow> (frame list \<times> phase) option" where
  \<comment> \<open>a value is expected; \<open>first\<close> says that the array was just opened and may close\<close>
  "startValue first st tok =
     (case tok of
        TString s \<Rightarrow> complete (JString s) st
      | TNumber n \<Rightarrow> complete (JNumber n) st
      | TTrue \<Rightarrow> complete (JBool True) st
      | TFalse \<Rightarrow> complete (JBool False) st
      | TNull \<Rightarrow> complete JNull st
      | TLBracket \<Rightarrow> Some (FArray [] # st, PFirstElem)
      | TLBrace \<Rightarrow> Some (FObject [] None # st, PFirstKey)
      | TRBracket \<Rightarrow>
          (case st of
             FArray [] # st' \<Rightarrow> if first then complete (JArray []) st' else None
           | _ \<Rightarrow> None)
      | _ \<Rightarrow> None)"

definition startKey :: "bool \<Rightarrow> frame list \<Rightarrow> token \<Rightarrow> (frame list \<times> phase) option" where
  "startKey first st tok =
     (case tok of
        TString k \<Rightarrow>
          (case st of
             FObject ms None # st' \<Rightarrow> Some (FObject ms (Some k) # st', PColon)
           | _ \<Rightarrow> None)
      | TRBrace \<Rightarrow>
          (case st of
             FObject [] None # st' \<Rightarrow> if first then complete (JObject []) st' else None
           | _ \<Rightarrow> None)
      | _ \<Rightarrow> None)"

definition afterValue :: "frame list \<Rightarrow> token \<Rightarrow> (frame list \<times> phase) option" where
  "afterValue st tok =
     (case tok of
        TComma \<Rightarrow>
          (case st of
             FArray vs # st' \<Rightarrow> Some (st, PValue)
           | FObject ms k # st' \<Rightarrow> Some (st, PKey)
           | [] \<Rightarrow> None)
      | TRBracket \<Rightarrow>
          (case st of FArray vs # st' \<Rightarrow> complete (JArray (rev vs)) st' | _ \<Rightarrow> None)
      | TRBrace \<Rightarrow>
          (case st of FObject ms None # st' \<Rightarrow> complete (JObject (rev ms)) st' | _ \<Rightarrow> None)
      | _ \<Rightarrow> None)"

fun parseTok :: "frame list \<times> phase \<Rightarrow> token \<Rightarrow> (frame list \<times> phase) option" where
  "parseTok (st, PValue) tok = startValue False st tok"
| "parseTok (st, PFirstElem) tok = startValue True st tok"
| "parseTok (st, PFirstKey) tok = startKey True st tok"
| "parseTok (st, PKey) tok = startKey False st tok"
| "parseTok (st, PColon) tok = (case tok of TColon \<Rightarrow> Some (st, PValue) | _ \<Rightarrow> None)"
| "parseTok (st, PAfter) tok = afterValue st tok"
| "parseTok (st, PDone v) tok = None"

fun parseToks :: "frame list \<times> phase \<Rightarrow> token list \<Rightarrow> (frame list \<times> phase) option" where
  "parseToks s [] = Some s"
| "parseToks s (t # ts) = (case parseTok s t of None \<Rightarrow> None | Some s' \<Rightarrow> parseToks s' ts)"

definition JSON_parse :: "string \<Rightarrow> json option" where
  "JSON_parse text =
     (case lexAll Idle text of
        None \<Rightarrow> None
      | Some ts \<Rightarrow>
          (case parseToks ([], PValue) ts of
             Some ([], PDone v) \<Rightarrow> Some v
           | _ \<Rightarrow> None))"

section \<open>The review pipeline (\<open>generateReview\<close>)\<close>

definition member :: "(string \<times> json) list \<Rightarrow> string \<Rightarrow> json option" where
  \<comment> \<open>a property of a parsed object; of two members with one name the later one stands\<close>
  "member ms k = map_of (rev ms) k"

definition isString :: "json \<Rightarrow> bool" where
  "isString j = (case j of JString _ \<Rightarrow> True | _ \<Rightarrow> False)"

definition isNumber :: "json \<Rightarrow> bool" where
  "isNumber j = (case j of JNumber _ \<Rightarrow> True | _ \<Rightarrow> False)"

definition conformsImprovement :: "json \<Rightarrow> bool" where
  \<comment> \<open>the \<open>items\<close> schema of \<open>improvements\<close> in \<open>jsonSchemaReview\<close>: an object whose four
      properties are all required, \<open>line\<close> a number and the other three strings\<close>
  "conformsImprovement j =
     (case j of
        JObject ms \<Rightarrow>
          (case member ms ''line'' of None \<Rightarrow> False | Some v \<Rightarrow> isNumber v) \<and>
          (case member ms ''file'' of None \<Rightarrow> False | Some v \<Rightarrow> isString v) \<and>
          (case member ms ''category'' of None \<Rightarrow> False | Some v \<Rightarrow> isString v) \<and>
          (case member ms ''comment'' of None \<Rightarrow> False | Some v \<Rightarrow> isString v)
      | _ \<Rightarrow> False)"

definition conformsReview :: "json \<Rightarrow> bool" where
  \<comment> \<open>\<open>jsonSchemaReview\<close>: an object with the required properties \<open>strengths\<close>, an array of
      strings, and \<open>improvements\<close>, an array of improvement objects\<close>
  "conformsReview j =
     (case j of
        JObject ms \<Rightarrow>
          (case member ms ''strengths'' of
             Some (JArray xs) \<Rightarrow> list_all isString xs
           | _ \<Rightarrow> False) \<and>
          (case member ms ''improvements'' of
             Some (JArray xs) \<Rightarrow> list_all conformsImprovement xs
           | _ \<Rightarrow> False)
      | _ \<Rightarrow> False)"

definition validAgainstSchema :: "string \<Rightarrow> bool" where
  \<comment> \<open>a response text is valid against the review schema: it is JSON and its value conforms\<close>
  "validAgainstSchema text =
     (case JSON_parse text of None \<Rightarrow> False | Some j \<Rightarrow> conformsReview j)"

text \<open>
  A prompt is a template literal of the source; it is modelled by the template it comes from
  and the values interpolated into it, in the order of their appearance. The fixed wording of
  the templates plays no part in what follows.
\<close>

datatype prompt =
    ContextPrompt string string string string string
  | InitialPrompt string string
  | RefinementPrompt string string string

record request =
  model :: string
  contents :: prompt
  responseSchema :: bool

record ApiLogEntry =
  step :: string
  prompt :: prompt
  response :: string

text \<open>
  The entry of the source also has a timestamp read from the clock; no property below depends
  on it and it is left out. One run is observed through the sequence of its effects: the
  requests sent to the endpoint and the entries handed to the log callback, in the order in
  which they happen. The endpoint maps a request to the text of its response, or to the error
  with which the awaited call rejects.
\<close>

datatype event = Requested request | Logged ApiLogEntry

type_synonym endpoint = "request \<Rightarrow> error + string"

definition contextRequest ::
  "string \<Rightarrow> string \<Rightarrow> string \<Rightarrow> string \<Rightarrow> string \<Rightarrow> string \<Rightarrow> request" where
  "contextRequest mdl title body readmeContent masterFilesContent diff =
     \<lparr>model = mdl,
      contents = ContextPrompt title (if body = [] then ''No description provided.'' else body)
                   readmeContent masterFilesContent diff,
      responseSchema = False\<rparr>"

definition initialRequest :: "string \<Rightarrow> string \<Rightarrow> string \<Rightarrow> request" where
  "initialRequest mdl contextSummary diff =
     \<lparr>model = mdl, contents = InitialPrompt contextSummary diff, responseSchema = True\<rparr>"

definition refinementRequest :: "string \<Rightarrow> string \<Rightarrow> string \<Rightarrow> string \<Rightarrow> request" where
  "refinementRequest mdl contextSummary initialReviewText diff =
     \<lparr>model = mdl, contents = RefinementPrompt contextSummary initialReviewText diff,
      responseSchema = True\<rparr>"

definition logInteraction :: "string \<Rightarrow> request \<Rightarrow> string \<Rightarrow> event" where
  "logInteraction stp req resp = Logged \<lparr>step = stp, prompt = contents req, response = resp\<rparr>"

definition generateReview ::
  "string \<Rightarrow> endpoint \<Rightarrow> string \<Rightarrow> string \<Rightarrow> string \<Rightarrow> string \<Rightarrow> string \<Rightarrow> string
     \<Rightarrow> event list \<times> (error + json \<times> string)" where
  "generateReview apiKey ai title body diff readmeContent masterFilesContent mdl =
     (if apiKey = [] then ([], Inl ApiKeyMissing)
      else
        let req1 = contextRequest mdl title body readmeContent masterFilesContent diff;
            tr1 = [Requested req1]
        in case ai req1 of
             Inl e \<Rightarrow> (tr1, Inl e)
           | Inr contextSummary \<Rightarrow>
               (let req2 = initialRequest mdl contextSummary diff;
                    tr2 = tr1 @ [logInteraction ''Context Gathering'' req1 contextSummary,
                                 Requested req2]
                in case ai req2 of
                     Inl e \<Rightarrow> (tr2, Inl e)
                   | Inr initialReviewText \<Rightarrow>
                       (let req3 = refinementRequest mdl contextSummary initialReviewText diff;
                            tr3 = tr2 @ [logInteraction ''Initial Review'' req2 initialReviewText,
                                         Requested req3]
                        in case ai req3 of
                             Inl e \<Rightarrow> (tr3, Inl e)
                           | Inr finalReviewText \<Rightarrow>
                               (tr3 @ [logInteraction ''Refinement'' req3 finalReviewText],
                                case JSON_parse finalReviewText of
                                  None \<Rightarrow> Inl SyntaxError
                                | Some review \<Rightarrow> Inr (review, contextSummary)))))"

fun logOf :: "event list \<Rightarrow> ApiLogEntry list" where
  "logOf [] = []"
| "logOf (Logged e # tr) = e # logOf tr"
| "logOf (Requested r # tr) = logOf tr"

fun requestsOf :: "event list \<Rightarrow> request list" where
  "requestsOf [] = []"
| "requestsOf (Requested r # tr) = r # requestsOf tr"
| "requestsOf (Logged e # tr) = requestsOf tr"

fun loggedBeforeNext :: "endpoint \<Rightarrow> event list \<Rightarrow> bool" where
  \<comment> \<open>every request that the endpoint answers is followed at once by the log entry of its
      prompt and of that answer; a request without its entry is the last event and was
      rejected\<close>
  "loggedBeforeNext ai [] = True"
| "loggedBeforeNext ai [Requested r] = (case ai r of Inl e \<Rightarrow> True | Inr t \<Rightarrow> False)"
| "loggedBeforeNext ai (Requested r # Logged e # tr) =
     (prompt e = contents r \<and> ai r = Inr (response e) \<and> loggedBeforeNext ai tr)"
| "loggedBeforeNext ai (x # y # tr) = False"
| "loggedBeforeNext ai [Logged e] = False"

definition stubEndpoint :: "(error + string) \<Rightarrow> (error + string) \<Rightarrow> (error + string) \<Rightarrow> endpoint" where
  \<comment> \<open>a stub collaborator for unit tests: one scripted answer per stage\<close>
  "stubEndpoint a1 a2 a3 req =
     (case contents req of
        ContextPrompt _ _ _ _ _ \<Rightarrow> a1
      | InitialPrompt _ _ \<Rightarrow> a2
      | RefinementPrompt _ _ _ \<Rightarrow> a3)"

section \<open>The content hash (\<open>sha1\<close>) and the deep link\<close>

unbundle bit_operations_syntax



























section \<open>The code snippet of a fix prompt (\<open>handleGenerateCopilotPrompt\<close>)\<close>

text \<open>
  The pattern is built from text: \<open>new RegExp(`--- File: ${improvement.file} ---\n([\s\S]*?)(?=\n--- File:|$)`)\<close>,
  so the path is read as a regular expression. A dot in it matches any character but a line
  terminator, and \<open>[abc]\<close> matches one of the characters between the brackets; every other
  character of the path stands for itself unless it is one of \<open>\ ^ $ * + ? ( ) { } |\<close>. A path
  that holds one of these, or a class that is empty, not closed or made of more than letters,
  digits, dots and underscores, is outside the model: its pattern is \<open>None\<close>.
\<close>

datatype patom = Lit char | AnyChar | OneOf string

definition isMeta :: "char \<Rightarrow> bool" where
  "isMeta c = (c = CHR 0x5C \<or> c \<in> set ''^$*+?()[]{}|'')"

definition classPlain :: "char \<Rightarrow> bool" where
  "classPlain c = (isLetter c \<or> isDigit c \<or> c = CHR ''.'' \<or> c = CHR ''_'')"

fun compilePath :: "string option \<Rightarrow> string \<Rightarrow> patom list option" where
  \<comment> \<open>the first argument holds the characters of the class being read, the last one first\<close>
  "compilePath None [] = Some []"
| "compilePath (Some acc) [] = None"
| "compilePath None (c # cs) =
     (if c = CHR ''.'' then map_option ((#) AnyChar) (compilePath None cs)
      else if c = CHR ''['' then compilePath (Some []) cs
      else if isMeta c then None
      else map_option ((#) (Lit c)) (compilePath None cs))"
| "compilePath (Some acc) (c # cs) =
     (if c = CHR '']'' then
        (if acc = [] then None
         else map_option ((#) (OneOf (rev acc))) (compilePath None cs))
      else if classPlain c then compilePath (Some (c # acc)) cs
      else None)"

definition filePattern :: "string \<Rightarrow> patom list option" where
  "filePattern f = compilePath None f"

fun matchAtom :: "patom \<Rightarrow> char \<Rightarrow> bool" where
  "matchAtom (Lit c) x = (x = c)"
| "matchAtom AnyChar x = (x \<noteq> CHR 0x0A \<and> x \<noteq> CHR 0x0D)"
| "matchAtom (OneOf cs) x = (x \<in> set cs)"

fun matchPrefix :: "patom list \<Rightarrow> string \<Rightarrow> string option" where
  \<comment> \<open>the pattern matched at the start of the input: the rest of the input\<close>
  "matchPrefix [] s = Some s"
| "matchPrefix (a # p) [] = None"
| "matchPrefix (a # p) (x # s) = (if matchAtom a x then matchPrefix p s else None)"

fun findBlock :: "patom list \<Rightarrow> string \<Rightarrow> string option" where
  \<comment> \<open>the leftmost place where the header matches: the input after the header\<close>
  "findBlock p [] = matchPrefix p []"
| "findBlock p (c # cs) =
     (case matchPrefix p (c # cs) of Some rest \<Rightarrow> Some rest | None \<Rightarrow> findBlock p cs)"

fun blockContent :: "string \<Rightarrow> string" where
  \<comment> \<open>\<open>([\s\S]*?)(?=\n--- File:|$)\<close>: the shortest text up to the next header or the end\<close>
  "blockContent [] = []"
| "blockContent (c # cs) =
     (if startsWith (c # cs) ''\<newline>--- File:'' then [] else c # blockContent cs)"

definition slice_array :: "'a list \<Rightarrow> int \<Rightarrow> int \<Rightarrow> 'a list" where
  \<comment> \<open>\<open>xs.slice(s, e)\<close>: a negative index counts from the end\<close>
  "slice_array xs s e =
     (let n = int (length xs);
          k = (if s < 0 then max (n + s) 0 else min s n);
          f = (if e < 0 then max (n + e) 0 else min e n)
      in take (nat (f - k)) (drop (nat k) xs))"

fun join :: "string \<Rightarrow> string list \<Rightarrow> string" where
  "join sep [] = []"
| "join sep [x] = x"
| "join sep (x # y # r) = x @ sep @ join sep (y # r)"

definition copilotCodeSnippet :: "string \<Rightarrow> ReviewImprovement \<Rightarrow> (error + string) option" where
  \<comment> \<open>the \<open>codeSnippet\<close> that \<open>handleGenerateCopilotPrompt\<close> hands to
      \<open>generateCopilotFixPrompt\<close>, or the error it throws before\<close>
  "copilotCodeSnippet masterFilesContent improvement =
     (case filePattern (file improvement) of
        None \<Rightarrow> None
      | Some fp \<Rightarrow>
          Some
            (case findBlock (map Lit ''--- File: '' @ fp @ map Lit '' ---\<newline>'')
                    masterFilesContent of
               None \<Rightarrow> Inl (ContentNotFound (file improvement))
             | Some rest \<Rightarrow>
                 (let fileContent = blockContent rest in
                  if fileContent = [] then Inl (ContentNotFound (file improvement))
                  else
                    let lines = splitOn CHR ''\<newline>'' fileContent;
                        lineIndex = line improvement - 1;
                        contextLines = 5;
                        start = max 0 (lineIndex - contextLines);
                        end' = min (int (length lines)) (lineIndex + contextLines + 1)
                    in Inr (join ''\<newline>'' (slice_array lines start end')))))"

fun numbered :: "int \<Rightarrow> 'a list \<Rightarrow> (int \<times> 'a) list" where
  "numbered n [] = []"
| "numbered n (x # xs) = (n, x) # numbered (n + 1) xs"

definition contextWindow :: "'a list \<Rightarrow> int \<Rightarrow> 'a list" where
  \<comment> \<open>the window in the words of the specification: of the lines, numbered from 1, those
      whose number is at most 5 away from the finding's line\<close>
  "contextWindow lines ln =
     map snd (filter (\<lambda>(n, _). ln - 5 \<le> n \<and> n \<le> ln + 5) (numbered 1 lines))"

section \<open>Properties of the diff parser\<close>

lemma digitsPlus_run:
  assumes "digits ds" and "r = [] \<or> \<not> isDigit (hd r)"
  shows "digitsPlus (ds @ r) = Some (ds, r)"
proof -
  have a: "\<And>x. x \<in> set ds \<Longrightarrow> isDigit x"
    using assms(1) by (simp add: digits_def list_all_iff)
  have t: "takeWhile isDigit r = []" and d: "dropWhile isDigit r = r"
    using assms(2) by (cases r; simp)+
  have "takeWhile isDigit (ds @ r) = ds"
    using a t by simp
  moreover have "dropWhile isDigit (ds @ r) = r"
    using a d by simp
  moreover have "ds \<noteq> []" using assms(1) by (simp add: digits_def)
  ultimately show ?thesis by (simp add: digitsPlus_def)
qed

lemma optCommaDigits_run:
  assumes "optDigits l" and "r = [] \<or> (\<not> isDigit (hd r) \<and> hd r \<noteq> CHR '','')"
  shows "optCommaDigits (optLen l @ r) = (l, r)"
proof (cases l)
  case None
  then show ?thesis using assms(2)
    by (cases r) (auto simp: optCommaDigits_def optLen_def)
next
  case (Some d)
  then have "digits d" using assms(1) by (simp add: optDigits_def)
  then have "digitsPlus (d @ r) = Some (d, r)"
    using assms(2) by (intro digitsPlus_run) auto
  then show ?thesis using Some by (simp add: optCommaDigits_def optLen_def)
qed

lemma expectLit_append: "expectLit p (p @ r) = Some r"
  by (simp add: expectLit_def startsWith_def)

lemma hunkAt_hunkHeader:
  assumes "digits os" "optDigits ol" "digits ns" "optDigits nl"
  shows "hunkAt (hunkHeader os ol ns nl rest) = Some (ns, nl)"
proof -
  have nd: "\<not> isDigit CHR '' ''" "\<not> isDigit CHR '',''" by (simp_all add: isDigit_def)
  have 1: "expectLit ''@@ -'' (hunkHeader os ol ns nl rest)
           = Some (os @ (optLen ol @ '' +'' @ ns @ optLen nl @ '' @@'' @ rest))"
    unfolding hunkHeader_def by (rule expectLit_append)
  have 2: "digitsPlus (os @ (optLen ol @ '' +'' @ ns @ optLen nl @ '' @@'' @ rest))
           = Some (os, optLen ol @ '' +'' @ ns @ optLen nl @ '' @@'' @ rest)"
    using assms(1) nd by (intro digitsPlus_run) (auto simp: optLen_def split: option.splits)
  have 3: "optCommaDigits (optLen ol @ ('' +'' @ ns @ optLen nl @ '' @@'' @ rest))
           = (ol, '' +'' @ ns @ optLen nl @ '' @@'' @ rest)"
    using assms(2) nd by (intro optCommaDigits_run) auto
  have 4: "expectLit '' +'' ('' +'' @ (ns @ optLen nl @ '' @@'' @ rest))
           = Some (ns @ optLen nl @ '' @@'' @ rest)"
    by (rule expectLit_append)
  have 5: "digitsPlus (ns @ (optLen nl @ '' @@'' @ rest))
           = Some (ns, optLen nl @ '' @@'' @ rest)"
    using assms(3) nd by (intro digitsPlus_run) (auto simp: optLen_def split: option.splits)
  have 6: "optCommaDigits (optLen nl @ ('' @@'' @ rest)) = (nl, '' @@'' @ rest)"
    using assms(4) nd by (intro optCommaDigits_run) auto
  have 7: "expectLit '' @@'' ('' @@'' @ rest) = Some rest"
    by (rule expectLit_append)
  show ?thesis
    unfolding hunkAt_def using 1 2 3 4 5 6 7 by simp
qed

lemma hunkMatch_hunkAt: "hunkAt s = Some m \<Longrightarrow> hunkMatch s = Some m"
  by (cases s) simp_all

lemma hunkMatch_hunkHeader:
  assumes "digits os" "optDigits ol" "digits ns" "optDigits nl"
  shows "hunkMatch (hunkHeader os ol ns nl rest) = Some (ns, nl)"
  using hunkAt_hunkHeader [OF assms] by (rule hunkMatch_hunkAt)

lemma parseInt_nonneg_aux: "0 \<le> a \<Longrightarrow> list_all isDigit ds \<Longrightarrow> 0 \<le> foldl (\<lambda>a c. 10 * a + digitVal c) a ds"
proof (induction ds arbitrary: a)
  case Nil then show ?case by simp
next
  case (Cons c ds)
  have "0 \<le> digitVal c" using Cons.prems(2) by (auto simp: isDigit_def digitVal_def)
  then show ?case using Cons by simp
qed

lemma parseInt_nonneg: "list_all isDigit ds \<Longrightarrow> 0 \<le> parseInt ds"
  unfolding parseInt_def by (rule parseInt_nonneg_aux) simp_all

lemma startsWith_iff: "startsWith l p \<longleftrightarrow> (\<exists>r. l = p @ r)"
  unfolding startsWith_def
  by (metis append_eq_conv_conj append_take_drop_id)

lemma header_iff: "(startsWith l ''+++ b/'' \<and> drop 6 l = p) \<longleftrightarrow> l = ''+++ b/'' @ p"
  by (auto simp: startsWith_iff)

lemma getProp_own: "obj k = Some v \<Longrightarrow> getProp obj k = OwnValue v"
  by (simp add: getProp_def)

lemma getProp_plain:
  "k \<notin> set objectPrototypeNames \<Longrightarrow>
     getProp obj k = (case obj k of None \<Rightarrow> Undefined | Some v \<Rightarrow> OwnValue v)"
  by (simp add: getProp_def split: option.splits)

lemma getProp_Undefined: "getProp obj k = Undefined \<Longrightarrow> obj k = None"
  by (auto simp: getProp_def split: option.splits if_splits)

lemma parseLine_header:
  "l = ''+++ b/'' @ p \<Longrightarrow>
   parseLine (ranges, cur) l =
     (if p = ''/dev/null'' then Inr (ranges, None)
      else Inr (if getProp ranges p = Undefined then ranges(p \<mapsto> []) else ranges, Some p))"
  by (simp add: parseLine_def startsWith_def)

lemma parseLine_other:
  assumes "\<not> startsWith l ''+++ b/''" and "cursorKnown (a, b)"
  shows "\<exists>a'. parseLine (a, b) l = Inr (a', b) \<and> dom a' = dom a"
proof (cases b)
  case None
  then show ?thesis using assms(1) by (simp add: parseLine_def truthy_def)
next
  case (Some f)
  then obtain rs where rs: "a f = Some rs" using assms(2) by (auto simp: cursorKnown_def)
  have d: "\<And>r. dom (a(f \<mapsto> rs @ [r])) = dom a" using rs by auto
  show ?thesis using assms(1) rs d unfolding Some
    by (simp add: parseLine_def truthy_def push_def getProp_own Let_def
             split: option.splits prod.splits)
qed

lemma parseLine_total:
  assumes "cursorKnown st" and "plainHeader l"
  shows "\<exists>st'. parseLine st l = Inr st' \<and> cursorKnown st'"
proof -
  obtain a b where st: "st = (a, b)" by (cases st)
  show ?thesis
  proof (cases "startsWith l ''+++ b/''")
    case True
    then obtain p where l: "l = ''+++ b/'' @ p" by (auto simp: startsWith_iff)
    have "p \<notin> set objectPrototypeNames" using assms(2) True unfolding l plainHeader_def by simp
    then have np: "getProp a p = (case a p of None \<Rightarrow> Undefined | Some v \<Rightarrow> OwnValue v)"
      by (rule getProp_plain)
    show ?thesis unfolding st parseLine_header [OF l] np
      by (auto simp: cursorKnown_def split: option.splits)
  next
    case False
    from parseLine_other [OF False assms(1) [unfolded st]]
    obtain a' where a': "parseLine (a, b) l = Inr (a', b)" "dom a' = dom a" by blast
    have "cursorKnown (a', b)"
      using assms(1) a'(2) unfolding st cursorKnown_def
      by (auto simp: dom_def split: option.splits)
    then show ?thesis using a'(1) st by simp
  qed
qed

lemma parseLine_dom:
  assumes "cursorKnown st" and "plainHeader l" and "parseLine st l = Inr st'"
  shows "dom (fst st') = dom (fst st) \<union> {p. l = ''+++ b/'' @ p \<and> p \<noteq> ''/dev/null''}"
proof -
  obtain a b where st: "st = (a, b)" by (cases st)
  show ?thesis
  proof (cases "startsWith l ''+++ b/''")
    case True
    then obtain p where l: "l = ''+++ b/'' @ p" by (auto simp: startsWith_iff)
    have "p \<notin> set objectPrototypeNames" using assms(2) True unfolding l plainHeader_def by simp
    then have np: "getProp a p = (case a p of None \<Rightarrow> Undefined | Some v \<Rightarrow> OwnValue v)"
      by (rule getProp_plain)
    have st': "st' = (if p = ''/dev/null'' then (a, None)
                      else (if a p = None then a(p \<mapsto> []) else a, Some p))"
      using assms(3) unfolding st parseLine_header [OF l] np
      by (auto split: option.splits if_splits)
    have hs: "{q. l = ''+++ b/'' @ q \<and> q \<noteq> ''/dev/null''} =
              (if p = ''/dev/null'' then {} else {p})"
      unfolding l by auto
    show ?thesis unfolding hs st' st by (auto split: if_splits)
  next
    case False
    then have "{p. l = ''+++ b/'' @ p \<and> p \<noteq> ''/dev/null''} = {}"
      by (auto simp: startsWith_iff)
    moreover have "dom (fst st') = dom (fst st)"
    proof -
      from parseLine_other [OF False assms(1) [unfolded st]]
      obtain a' where a': "parseLine (a, b) l = Inr (a', b)" "dom a' = dom a" by blast
      then have "st' = (a', b)" using assms(3) unfolding st by simp
      then show ?thesis using a'(2) st by simp
    qed
    ultimately show ?thesis by blast
  qed
qed

lemma parseLine_grows:
  assumes "parseLine st l = Inr st'" and "fst st p = Some rs"
  shows "\<exists>ex. fst st' p = Some (rs @ ex)"
proof -
  obtain a b where st: "st = (a, b)" by (cases st)
  show ?thesis
  proof (cases "startsWith l ''+++ b/''")
    case True
    then obtain q where l: "l = ''+++ b/'' @ q" by (auto simp: startsWith_iff)
    have "st' = (a, None) \<or> st' = (a, Some q) \<or> (st' = (a(q \<mapsto> []), Some q) \<and> a q = None)"
      using assms(1) unfolding st parseLine_header [OF l]
      by (auto split: if_splits dest: getProp_Undefined)
    then show ?thesis using assms(2) unfolding st by auto
  next
    case False
    then show ?thesis using assms unfolding st
      by (auto simp: parseLine_def push_def getProp_def Let_def
               split: option.splits prod.splits if_splits property.splits)
  qed
qed

lemma parseLine_repeated_header:
  assumes "ranges p = Some rs" and "p \<noteq> ''/dev/null''"
  shows "parseLine (ranges, cur) (''+++ b/'' @ p) = Inr (ranges, Some p)"
proof -
  have "getProp ranges p \<noteq> Undefined" using assms(1) by (simp add: getProp_own)
  then show ?thesis using assms(2) parseLine_header [where l = "''+++ b/'' @ p" and p = p and ranges = ranges and cur = cur]
    by simp
qed

lemma parseLine_error: "parseLine st l = Inl e \<Longrightarrow> e = TypeError"
  by (cases st)
     (auto simp: parseLine_def push_def Let_def
           split: option.splits prod.splits if_splits property.splits)

lemma parseLines_append:
  "parseLines st (xs @ ys) =
     (case parseLines st xs of Inl e \<Rightarrow> Inl e | Inr st' \<Rightarrow> parseLines st' ys)"
  by (induction xs arbitrary: st) (auto split: sum.splits)

lemma parseLines_error: "parseLines st ls = Inl e \<Longrightarrow> e = TypeError"
  by (induction ls arbitrary: st) (auto split: sum.splits dest: parseLine_error)

lemma parseLines_total:
  assumes "cursorKnown st" and "\<forall>l \<in> set ls. plainHeader l"
  shows "\<exists>st'. parseLines st ls = Inr st' \<and> cursorKnown st'"
  using assms
proof (induction ls arbitrary: st)
  case Nil
  then show ?case by simp
next
  case (Cons l ls)
  from parseLine_total [OF Cons.prems(1), of l] Cons.prems(2)
  obtain st1 where 1: "parseLine st l = Inr st1" "cursorKnown st1" by auto
  from Cons.IH [OF 1(2)] Cons.prems(2) show ?case using 1(1) by simp
qed

lemma parseLines_dom:
  assumes "cursorKnown st" and "\<forall>l \<in> set ls. plainHeader l" and "parseLines st ls = Inr st'"
  shows "dom (fst st') =
         dom (fst st) \<union> {p. (\<exists>l \<in> set ls. l = ''+++ b/'' @ p) \<and> p \<noteq> ''/dev/null''}"
  using assms
proof (induction ls arbitrary: st)
  case Nil
  then show ?case by simp
next
  case (Cons l ls)
  have pl: "plainHeader l" and pls: "\<forall>l \<in> set ls. plainHeader l"
    using Cons.prems(2) by simp_all
  from parseLine_total [OF Cons.prems(1) pl]
  obtain st1 where 1: "parseLine st l = Inr st1" "cursorKnown st1" by blast
  have 2: "parseLines st1 ls = Inr st'" using Cons.prems(3) 1(1) by simp
  have "dom (fst st') =
        dom (fst st1) \<union> {p. (\<exists>l \<in> set ls. l = ''+++ b/'' @ p) \<and> p \<noteq> ''/dev/null''}"
    by (rule Cons.IH [OF 1(2) pls 2])
  also have "dom (fst st1) = dom (fst st) \<union> {p. l = ''+++ b/'' @ p \<and> p \<noteq> ''/dev/null''}"
    by (rule parseLine_dom [OF Cons.prems(1) pl 1(1)])
  finally show ?case by auto
qed

lemma parseLines_grows:
  assumes "parseLines st ls = Inr st'" and "fst st p = Some rs"
  shows "\<exists>ex. fst st' p = Some (rs @ ex)"
  using assms
proof (induction ls arbitrary: st rs)
  case Nil
  then show ?case by simp
next
  case (Cons l ls)
  from Cons.prems(1) obtain st1 where 1: "parseLine st l = Inr st1" "parseLines st1 ls = Inr st'"
    by (auto split: sum.splits)
  from parseLine_grows [OF 1(1) Cons.prems(2)]
  obtain e1 where e1: "fst st1 p = Some (rs @ e1)" by blast
  from Cons.IH [OF 1(2) e1] obtain e2 where "fst st' p = Some ((rs @ e1) @ e2)" by blast
  then show ?case by simp
qed

lemma cursorKnown_init: "cursorKnown (Map.empty, None)"
  by (simp add: cursorKnown_def)

lemmas parser_defs =
  parseDiffToValidLineRanges_def parseLine_def startsWith_def hunkAt_def expectLit_def
  digitsPlus_def optCommaDigits_def isDigit_def parseInt_def digitVal_def truthy_def push_def
  getProp_def objectPrototypeNames_def Let_def hunkRange_def

lemma parseLine_hunk:
  assumes "ranges f = Some rs" "f \<noteq> []" "startsWith ln ''@@''"
  shows "parseLine (ranges, Some f) ln =
         Inr (case hunkRange ln of None \<Rightarrow> ranges | Some r \<Rightarrow> ranges(f \<mapsto> rs @ [r]), Some f)"
proof -
  have "\<not> startsWith ln ''+++ b/''"
    using assms(3) by (auto simp: startsWith_iff)
  then show ?thesis using assms
    by (auto simp: parseLine_def hunkRange_def push_def truthy_def getProp_own Let_def
             split: option.splits)
qed

lemma hunkRange_hunkHeader:
  assumes "digits os" "optDigits ol" "digits ns" "optDigits nl"
  shows "hunkRange (hunkHeader os ol ns nl rest) =
         (let len = (case nl of None \<Rightarrow> 1 | Some d \<Rightarrow> parseInt d)
          in if len > 0 then Some \<lparr>rstart = parseInt ns, rend = parseInt ns + len - 1\<rparr>
             else None)"
  by (simp add: hunkRange_def hunkMatch_hunkHeader [OF assms] Let_def)

lemma startsWith_hunkHeader: "startsWith (hunkHeader os ol ns nl rest) ''@@''"
  by (simp add: hunkHeader_def startsWith_def)

text \<open>
  What holds where the current file has a list of its own. After any lines \<open>pre\<close> that leave
  the non-empty path \<open>f\<close> as the current file with the list \<open>rs\<close>, a hunk header
  \<open>@@ -oldStart[,oldLen] +newStart[,newLen] @@\<close>, possibly followed by more text, appends the
  inclusive range from \<open>newStart\<close> to \<open>newStart + newLen - 1\<close> to the end of \<open>rs\<close>; an omitted
  length counts as 1 and the length 0 leaves the table as it is. The diff \<open>+++ b/src/a.ts\<close>,
  \<open>@@ -1,3 +1,5 @@\<close> gives the table with the single entry \<open>src/a.ts\<close> and the range 1 to 5.
\<close>

lemma hunk_header_appends_to_own_list:
  assumes "parseLines (Map.empty, None) pre = Inr (ranges, Some f)" and "f \<noteq> []"
    and "ranges f = Some rs"
    and "digits oldStart" and "optDigits oldLen" and "digits newStart" and "optDigits newLen"
  shows "parseLines (Map.empty, None) (pre @ [hunkHeader oldStart oldLen newStart newLen rest]) =
             Inr (case newLen of
                    None \<Rightarrow> ranges(f \<mapsto> rs @ [\<lparr>rstart = parseInt newStart, rend = parseInt newStart\<rparr>])
                  | Some d \<Rightarrow>
                      if parseInt d = 0 then ranges
                      else ranges(f \<mapsto> rs @ [\<lparr>rstart = parseInt newStart,
                                                rend = parseInt newStart + parseInt d - 1\<rparr>]),
                  Some f)"
proof -
  let ?h = "hunkHeader oldStart oldLen newStart newLen rest"
  have step: "parseLine (ranges, Some f) ?h =
         Inr (case hunkRange ?h of None \<Rightarrow> ranges | Some r \<Rightarrow> ranges(f \<mapsto> rs @ [r]), Some f)"
    using assms(3) assms(2) startsWith_hunkHeader by (rule parseLine_hunk)
  have nn: "\<And>d. newLen = Some d \<Longrightarrow> 0 \<le> parseInt d"
    using assms(7) by (auto simp: optDigits_def digits_def intro: parseInt_nonneg)
  have "parseLines (Map.empty, None) (pre @ [?h]) = parseLine (ranges, Some f) ?h"
    using assms(1) by (simp add: parseLines_append split: sum.splits)
  also note step
  also note hunkRange_hunkHeader [OF assms(4-7)]
  finally show ?thesis
    using nn by (cases newLen) (auto simp: Let_def dest: nn)
qed

lemma scenario_diff_table:
  "parseDiffToValidLineRanges ''+++ b/src/a.ts\<newline>@@ -1,3 +1,5 @@'' =
     Inr [''src/a.ts'' \<mapsto> [\<lparr>rstart = 1, rend = 5\<rparr>]]"
  by (simp add: parser_defs)

text \<open>
  The current file counts as set when it is neither \<open>null\<close> nor the empty string: after the
  header \<open>+++ b/\<close> the empty path has an entry, and the hunk headers that follow are skipped.
\<close>

lemma hunk_after_empty_path_is_skipped:
  "parseDiffToValidLineRanges ''+++ b/\<newline>@@ -1,3 +1,5 @@'' = Inr ['''' \<mapsto> []]"
  by (simp add: parser_defs)

text \<open>
  Claim C2. The claim says that every hunk header seen while a current file is set appends
  its range to the list of that file. The table is a plain object and the header branch
  creates the list only when \<open>ranges[currentFile]\<close> is falsy. For the path \<open>constructor\<close> the
  value read is the function every object inherits, so no list is created, and at the hunk
  header \<open>ranges[currentFile].push\<close> is not a function: the parser throws and no table is
  returned.
\<close>

theorem hunk_after_inherited_name_throws:
  "parseDiffToValidLineRanges ''+++ b/constructor\<newline>@@ -1,3 +1,5 @@'' = Inl TypeError"
  by (simp add: parser_defs)

text \<open>
  What holds for a diff in which no header names an inherited property: the parser returns a
  table, and a path \<open>p\<close> is a key of it if and only if some line of the diff is \<open>+++ b/p\<close> and
  \<open>p\<close> is not the string \<open>/dev/null\<close>.
\<close>

lemma keys_are_headers_of_plain_diffs:
  assumes "\<forall>l \<in> set (splitOn CHR ''\<newline>'' D). plainHeader l"
  shows "\<exists>t. parseDiffToValidLineRanges D = Inr t \<and>
       (\<forall>p. (t p \<noteq> None) =
            ((\<exists>l \<in> set (splitOn CHR ''\<newline>'' D). l = ''+++ b/'' @ p) \<and> p \<noteq> ''/dev/null''))"
proof -
  let ?ls = "splitOn CHR ''\<newline>'' D"
  from parseLines_total [OF cursorKnown_init assms]
  obtain st' where st': "parseLines (Map.empty, None) ?ls = Inr st'" by blast
  have t: "parseDiffToValidLineRanges D = Inr (fst st')"
    using st' by (cases st') (simp add: parseDiffToValidLineRanges_def)
  have "dom (fst st') = {p. (\<exists>l \<in> set ?ls. l = ''+++ b/'' @ p) \<and> p \<noteq> ''/dev/null''}"
    using parseLines_dom [OF cursorKnown_init assms st'] by simp
  then have "\<forall>p. (fst st' p \<noteq> None) =
            ((\<exists>l \<in> set ?ls. l = ''+++ b/'' @ p) \<and> p \<noteq> ''/dev/null'')"
    by (auto simp: dom_def)
  with t show ?thesis by blast
qed

text \<open>
  Claim C3. The claim says that a path is a key of the table if and only if the diff holds a
  new-file header for it whose target is not \<open>/dev/null\<close>. The diff \<open>+++ b/toString\<close> holds such
  a header, yet the table has no key: \<open>ranges[currentFile]\<close> reads the inherited function, so
  the empty list is never stored. In the other direction the header \<open>+++ b/dev/null\<close> of a
  deleted file, whose target the comparison with \<open>/dev/null\<close> is meant to catch, makes the key
  \<open>dev/null\<close>.
\<close>

theorem header_of_inherited_name_makes_no_key:
  "parseDiffToValidLineRanges ''+++ b/toString'' = Inr Map.empty \<and>
   parseDiffToValidLineRanges ''+++ b/dev/null'' = Inr [''dev/null'' \<mapsto> []]"
  by (simp add: parser_defs)

text \<open>
  Claim C4. The claim says that the header line \<open>+++ b/dev/null\<close> contributes no entry and that
  the hunks after it are ignored. The parser strips the six characters \<open>+++ b/\<close> and compares
  the rest with \<open>/dev/null\<close>; for this line the rest is \<open>dev/null\<close>, so the comparison fails, the
  line is taken as the header of a file named \<open>dev/null\<close>, and the hunk that follows is recorded
  for it.
\<close>

theorem dev_null_header_creates_entry:
  "parseDiffToValidLineRanges ''+++ b/dev/null\<newline>@@ -1,3 +1,5 @@'' =
     Inr [''dev/null'' \<mapsto> [\<lparr>rstart = 1, rend = 5\<rparr>]]"
  by (simp add: parser_defs)

text \<open>
  Claim C10. Let the lines of a diff be \<open>pre\<close> followed by \<open>post\<close>, and let the table after \<open>pre\<close>
  hold the list \<open>rs\<close> for the path \<open>p\<close>. Whatever lines follow, every table the parser reaches
  holds for \<open>p\<close> a list that starts with \<open>rs\<close>: nothing recorded is removed or reset. The parse
  of the whole diff either throws the TypeError of a path that names an inherited property,
  and then returns no table, or returns a table in which the list of \<open>p\<close> starts with \<open>rs\<close>;
  it does return when no header of the diff names an inherited property. A repeated header
  \<open>+++ b/p\<close> leaves the table unchanged and makes \<open>p\<close> the current file, and when \<open>p\<close> is not
  empty the range of a hunk line after it is appended to the end of \<open>rs\<close>; a hunk line that
  yields no range leaves the table as it is.
\<close>

theorem range_lists_only_grow:
  assumes "splitOn CHR ''\<newline>'' D = pre @ post"
    and "parseLines (Map.empty, None) pre = Inr (ranges, cur)"
    and "ranges p = Some rs"
  shows "(\<forall>more st'. parseLines (ranges, cur) more = Inr st' \<longrightarrow>
            (\<exists>ex. fst st' p = Some (rs @ ex))) \<and>
         (case parseDiffToValidLineRanges D of
            Inl e \<Rightarrow> e = TypeError
          | Inr t \<Rightarrow> (\<exists>ex. t p = Some (rs @ ex))) \<and>
         ((\<forall>l \<in> set (pre @ post). plainHeader l) \<longrightarrow>
            (\<exists>t ex. parseDiffToValidLineRanges D = Inr t \<and> t p = Some (rs @ ex))) \<and>
         (p \<noteq> ''/dev/null'' \<longrightarrow>
            parseLine (ranges, cur) (''+++ b/'' @ p) = Inr (ranges, Some p)) \<and>
         (p \<noteq> ''/dev/null'' \<and> p \<noteq> [] \<and> startsWith ln ''@@'' \<longrightarrow>
            parseLines (ranges, cur) [''+++ b/'' @ p, ln] =
              Inr (case hunkRange ln of
                     None \<Rightarrow> ranges
                   | Some r \<Rightarrow> ranges(p \<mapsto> rs @ [r]), Some p))"
proof (intro conjI allI impI)
  fix more st' assume "parseLines (ranges, cur) more = Inr st'"
  from parseLines_grows [OF this] assms(3)
  show "\<exists>ex. fst st' p = Some (rs @ ex)" by simp
next
  have whole: "parseLines (Map.empty, None) (splitOn CHR ''\<newline>'' D) =
               parseLines (ranges, cur) post"
    using assms(1,2) by (simp add: parseLines_append)
  show "case parseDiffToValidLineRanges D of
            Inl e \<Rightarrow> e = TypeError
          | Inr t \<Rightarrow> (\<exists>ex. t p = Some (rs @ ex))"
  proof (cases "parseLines (ranges, cur) post")
    case (Inl e)
    then have "e = TypeError" by (rule parseLines_error)
    then show ?thesis using Inl whole by (simp add: parseDiffToValidLineRanges_def)
  next
    case (Inr st')
    from parseLines_grows [OF this] assms(3)
    obtain ex where "fst st' p = Some (rs @ ex)" by auto
    then show ?thesis using Inr whole
      by (cases st') (auto simp: parseDiffToValidLineRanges_def)
  qed
next
  assume pl: "\<forall>l \<in> set (pre @ post). plainHeader l"
  then have "\<forall>l \<in> set (splitOn CHR ''\<newline>'' D). plainHeader l" using assms(1) by simp
  from parseLines_total [OF cursorKnown_init this]
  obtain st' where st': "parseLines (Map.empty, None) (splitOn CHR ''\<newline>'' D) = Inr st'"
    by blast
  then have "parseLines (ranges, cur) post = Inr st'"
    using assms(1,2) by (simp add: parseLines_append)
  from parseLines_grows [OF this] assms(3)
  obtain ex where ex: "fst st' p = Some (rs @ ex)" by auto
  have "parseDiffToValidLineRanges D = Inr (fst st')"
    using st' by (cases st') (simp add: parseDiffToValidLineRanges_def)
  with ex show "\<exists>t ex. parseDiffToValidLineRanges D = Inr t \<and> t p = Some (rs @ ex)"
    by blast
next
  assume "p \<noteq> ''/dev/null''"
  with assms(3) show "parseLine (ranges, cur) (''+++ b/'' @ p) = Inr (ranges, Some p)"
    by (rule parseLine_repeated_header)
next
  assume a: "p \<noteq> ''/dev/null'' \<and> p \<noteq> [] \<and> startsWith ln ''@@''"
  then have 1: "parseLine (ranges, cur) (''+++ b/'' @ p) = Inr (ranges, Some p)"
    using assms(3) by (intro parseLine_repeated_header) simp_all
  have 2: "parseLine (ranges, Some p) ln =
         Inr (case hunkRange ln of None \<Rightarrow> ranges | Some r \<Rightarrow> ranges(p \<mapsto> rs @ [r]), Some p)"
    using assms(3) a by (intro parseLine_hunk) simp_all
  show "parseLines (ranges, cur) [''+++ b/'' @ p, ln] =
              Inr (case hunkRange ln of
                     None \<Rightarrow> ranges
                   | Some r \<Rightarrow> ranges(p \<mapsto> rs @ [r]), Some p)"
    using 1 2 by simp
qed

theorem range_lists_only_grow_witness:
  "parseDiffToValidLineRanges ''+++ b/a.ts\<newline>@@ -1 +1,2 @@\<newline>+++ b/a.ts\<newline>@@ -9 +9,3 @@''
     = Inr [''a.ts'' \<mapsto> [\<lparr>rstart = 1, rend = 2\<rparr>, \<lparr>rstart = 9, rend = 11\<rparr>]] \<and>
   parseLines ([''a.ts'' \<mapsto> [\<lparr>rstart = 1, rend = 2\<rparr>]], Some ''a.ts'') [''+++ b/a.ts'', ''@@ -9 +9,3 @@'']
     = Inr ([''a.ts'' \<mapsto> [\<lparr>rstart = 1, rend = 2\<rparr>, \<lparr>rstart = 9, rend = 11\<rparr>]], Some ''a.ts'')"
proof -
  have s: "splitOn CHR ''\<newline>'' ''+++ b/a.ts\<newline>@@ -1 +1,2 @@\<newline>+++ b/a.ts\<newline>@@ -9 +9,3 @@''
           = [''+++ b/a.ts'', ''@@ -1 +1,2 @@''] @ [''+++ b/a.ts'', ''@@ -9 +9,3 @@'']"
    by simp
  have pre: "parseLines (Map.empty, None) [''+++ b/a.ts'', ''@@ -1 +1,2 @@'']
     = Inr ([''a.ts'' \<mapsto> [\<lparr>rstart = 1, rend = 2\<rparr>]], Some ''a.ts'')"
    by (simp add: parser_defs)
  have r: "[''a.ts'' \<mapsto> [\<lparr>rstart = 1, rend = 2\<rparr>]] ''a.ts'' = Some [\<lparr>rstart = 1, rend = 2\<rparr>]"
    by simp
  show ?thesis
    using range_lists_only_grow [OF s pre r, of "''@@ -9 +9,3 @@''"]
    by (simp add: parser_defs plainHeader_def)
qed

section \<open>Properties of the review validator\<close>

lemma filterE_filter:
  assumes "\<forall>x \<in> set xs. p x = Inr (q x)"
  shows "filterE p xs = Inr (filter q xs)"
  using assms by (induction xs) auto

text \<open>
  What holds for a review in which no finding names an inherited property that the table
  lacks: the validator returns the review with exactly the findings \<open>f\<close>, in their order and
  unchanged, for which the table has an entry for the file of \<open>f\<close> and some range \<open>r\<close> of that
  entry has \<open>r.start \<le> f.line \<le> r.end\<close>; the strengths are kept as they are.
\<close>

lemma validator_filters_plain_reviews:
  assumes "\<forall>f \<in> set (improvements rv). getProp t (file f) \<noteq> InheritedValue"
  shows "validateReview t rv = Inr (rv\<lparr>improvements := filter (coveredBy t) (improvements rv)\<rparr>)"
proof -
  have "\<forall>f \<in> set (improvements rv). keepImprovement t f = Inr (coveredBy t f)"
    using assms
    by (auto simp: keepImprovement_def coveredBy_def getProp_def list_ex_iff
             split: option.splits if_splits)
  then have "filterE (keepImprovement t) (improvements rv) =
             Inr (filter (coveredBy t) (improvements rv))"
    by (rule filterE_filter)
  then show ?thesis by (simp add: validateReview_def)
qed

text \<open>
  Claim C1. The claim says that a finding whose file is absent from the table is dropped and
  that the others are judged by their ranges. The table is a plain object, so for the file
  \<open>toString\<close> the value read is the inherited function, which is truthy; \<open>fileRanges.some\<close> is
  then not a function, the filter throws, and the whole review is lost, the finding in
  \<open>src/a.ts\<close> with it. The table used is the one the parser makes of the diff
  \<open>+++ b/src/a.ts\<close>, \<open>@@ -1,3 +1,5 @@\<close>.
\<close>

theorem validator_throws_on_inherited_name:
  "parseDiffToValidLineRanges ''+++ b/src/a.ts\<newline>@@ -1,3 +1,5 @@'' =
     Inr [''src/a.ts'' \<mapsto> [\<lparr>rstart = 1, rend = 5\<rparr>]] \<and>
   validateReview [''src/a.ts'' \<mapsto> [\<lparr>rstart = 1, rend = 5\<rparr>]]
      \<lparr>strengths = [''clear''],
       improvements =
         [\<lparr>line = 3, file = ''src/a.ts'', category = ''Style'', comment = ''c1'', link = None\<rparr>,
          \<lparr>line = 1, file = ''toString'', category = ''Style'', comment = ''c2'', link = None\<rparr>]\<rparr>
   = Inl TypeError"
  by (simp add: parser_defs validateReview_def keepImprovement_def)

section \<open>Properties of the URL parser\<close>

lemma expectLit_Some: "expectLit p s = Some r \<Longrightarrow> s = p @ r"
  by (auto simp: expectLit_def startsWith_iff split: if_splits)

lemma notSlashPlus_Some:
  assumes "notSlashPlus s = Some (a, r)"
  shows "s = a @ r \<and> a \<noteq> [] \<and> CHR ''/'' \<notin> set a"
proof -
  have a: "a = takeWhile (\<lambda>c. c \<noteq> CHR ''/'') s" and r: "r = dropWhile (\<lambda>c. c \<noteq> CHR ''/'') s"
    and ne: "a \<noteq> []"
    using assms by (auto simp: notSlashPlus_def split: if_splits)
  have "CHR ''/'' \<notin> set a" unfolding a by (auto dest: set_takeWhileD)
  then show ?thesis using a r ne by simp
qed

lemma digitsPlus_Some:
  assumes "digitsPlus s = Some (d, r)"
  shows "s = d @ r \<and> digits d \<and> (r = [] \<or> \<not> isDigit (hd r))"
proof -
  have d: "d = takeWhile isDigit s" and r: "r = dropWhile isDigit s" and ne: "d \<noteq> []"
    using assms by (auto simp: digitsPlus_def split: if_splits)
  have "list_all isDigit d" unfolding d by (auto simp: list_all_iff dest: set_takeWhileD)
  moreover have "r = [] \<or> \<not> isDigit (hd r)"
    unfolding r by (metis hd_dropWhile)
  ultimately show ?thesis using d r ne by (simp add: digits_def)
qed

lemma notSlashPlus_run:
  assumes "a \<noteq> []" "CHR ''/'' \<notin> set a"
  shows "notSlashPlus (a @ CHR ''/'' # r) = Some (a, CHR ''/'' # r)"
proof -
  have "takeWhile (\<lambda>c. c \<noteq> CHR ''/'') (a @ CHR ''/'' # r) = a"
    using assms(2) by (subst takeWhile_append2) auto
  moreover have "dropWhile (\<lambda>c. c \<noteq> CHR ''/'') (a @ CHR ''/'' # r) = CHR ''/'' # r"
    using assms(2) by (subst dropWhile_append2) auto
  ultimately show ?thesis using assms(1) by (simp add: notSlashPlus_def)
qed

lemma digitsPlus_prefix:
  assumes "digits ds"
  shows "\<exists>m r. digitsPlus (ds @ post) = Some (m, r)"
proof -
  have "takeWhile isDigit (ds @ post) = ds @ takeWhile isDigit post"
    using assms by (subst takeWhile_append2) (auto simp: digits_def list_all_iff)
  then have "takeWhile isDigit (ds @ post) \<noteq> []"
    using assms by (simp add: digits_def)
  then show ?thesis by (simp add: digitsPlus_def)
qed

lemma urlAt_Some:
  assumes "urlAt s = Some (m1, m2, m3)"
  shows "\<exists>post. s = ''github.com/'' @ m1 @ ''/'' @ m2 @ ''/pull/'' @ m3 @ post \<and>
           m1 \<noteq> [] \<and> CHR ''/'' \<notin> set m1 \<and> m2 \<noteq> [] \<and> CHR ''/'' \<notin> set m2 \<and> digits m3 \<and>
           (post = [] \<or> \<not> isDigit (hd post))"
proof -
  from assms obtain s1 s2 s3 s4 s5 s6 where
    1: "expectLit ''github.com/'' s = Some s1" and
    2: "notSlashPlus s1 = Some (m1, s2)" and
    3: "expectLit ''/'' s2 = Some s3" and
    4: "notSlashPlus s3 = Some (m2, s4)" and
    5: "expectLit ''/pull/'' s4 = Some s5" and
    6: "digitsPlus s5 = Some (m3, s6)"
    by (auto simp: urlAt_def split: option.splits prod.splits)
  show ?thesis
    using expectLit_Some [OF 1] notSlashPlus_Some [OF 2] expectLit_Some [OF 3]
      notSlashPlus_Some [OF 4] expectLit_Some [OF 5] digitsPlus_Some [OF 6]
    by (intro exI [of _ s6]) simp
qed

lemma urlMatch_Some:
  "urlMatch s = Some m \<Longrightarrow> \<exists>pre t. s = pre @ t \<and> urlAt t = Some m"
proof (induction s)
  case Nil
  then show ?case by simp
next
  case (Cons c cs)
  show ?case
  proof (cases "urlAt (c # cs)")
    case None
    with Cons.prems have "urlMatch cs = Some m" by simp
    from Cons.IH [OF this] obtain pre t where "cs = pre @ t" "urlAt t = Some m" by blast
    then have "c # cs = (c # pre) @ t \<and> urlAt t = Some m" by simp
    then show ?thesis by blast
  next
    case (Some m')
    with Cons.prems have "m' = m" by simp
    with Some have "c # cs = [] @ (c # cs) \<and> urlAt (c # cs) = Some m" by simp
    then show ?thesis by blast
  qed
qed

lemma urlAt_complete:
  assumes "ow \<noteq> []" "CHR ''/'' \<notin> set ow" "rp \<noteq> []" "CHR ''/'' \<notin> set rp" "digits ds"
  shows "urlAt (''github.com/'' @ ow @ ''/'' @ rp @ ''/pull/'' @ ds @ post) \<noteq> None"
proof -
  have 1: "expectLit ''github.com/'' (''github.com/'' @ ow @ ''/'' @ rp @ ''/pull/'' @ ds @ post)
           = Some (ow @ ''/'' @ rp @ ''/pull/'' @ ds @ post)"
    by (rule expectLit_append)
  have 2: "notSlashPlus (ow @ CHR ''/'' # (rp @ ''/pull/'' @ ds @ post))
           = Some (ow, CHR ''/'' # (rp @ ''/pull/'' @ ds @ post))"
    by (rule notSlashPlus_run [OF assms(1,2)])
  have 3: "expectLit ''/'' (''/'' @ (rp @ ''/pull/'' @ ds @ post)) = Some (rp @ ''/pull/'' @ ds @ post)"
    by (rule expectLit_append)
  have 4: "notSlashPlus (rp @ CHR ''/'' # (''pull/'' @ ds @ post))
           = Some (rp, CHR ''/'' # (''pull/'' @ ds @ post))"
    by (rule notSlashPlus_run [OF assms(3,4)])
  have 5: "expectLit ''/pull/'' (''/pull/'' @ (ds @ post)) = Some (ds @ post)"
    by (rule expectLit_append)
  from digitsPlus_prefix [OF assms(5), of post]
  obtain m r where 6: "digitsPlus (ds @ post) = Some (m, r)" by blast
  show ?thesis
    unfolding urlAt_def using 1 2 3 4 5 6 by simp
qed

lemma urlMatch_complete: "urlAt t \<noteq> None \<Longrightarrow> urlMatch (pre @ t) \<noteq> None"
proof (induction pre)
  case Nil
  then show ?case by (cases t) auto
next
  case (Cons c pre)
  then show ?case by (auto split: option.splits)
qed

lemmas url_defs =
  parseGitHubUrl_def urlAt_def notSlashPlus_def expectLit_def startsWith_def digitsPlus_def
  isDigit_def parseInt_def digitVal_def specUrlForm_def

text \<open>
  Claim C8, as the code has it. Parsing succeeds exactly on the strings that contain, anywhere,
  \<open>github.com/<owner>/<repo>/pull/<digits>\<close> with a non-empty owner and repository that hold no
  slash; neither the scheme \<open>https://\<close> nor the end of the string is checked, and the host is
  the literal \<open>github.com\<close>. The result carries an owner, a repository and digits found that
  way, the digits being a maximal run, and its pull number is their decimal value, which is
  not negative (it is 0 for \<open>pull/0\<close>). \<open>https://github.com/acme/widget/pull/42\<close> parses to
  owner \<open>acme\<close>, repository \<open>widget\<close>, number 42, and the same URL without \<open>/pull/42\<close> gives
  no result.
\<close>

theorem parseGitHubUrl_finds_coordinates:
  "(parseGitHubUrl url \<noteq> None) =
     (\<exists>pre ow rp ds post.
        url = pre @ ''github.com/'' @ ow @ ''/'' @ rp @ ''/pull/'' @ ds @ post \<and>
        ow \<noteq> [] \<and> CHR ''/'' \<notin> set ow \<and> rp \<noteq> [] \<and> CHR ''/'' \<notin> set rp \<and> digits ds) \<and>
   (\<forall>r. parseGitHubUrl url = Some r \<longrightarrow>
      0 \<le> pull_number r \<and>
      (\<exists>pre ds post.
         url = pre @ ''github.com/'' @ owner r @ ''/'' @ repo r @ ''/pull/'' @ ds @ post \<and>
         owner r \<noteq> [] \<and> CHR ''/'' \<notin> set (owner r) \<and> repo r \<noteq> [] \<and> CHR ''/'' \<notin> set (repo r) \<and>
         digits ds \<and> (post = [] \<or> \<not> isDigit (hd post)) \<and> pull_number r = parseInt ds)) \<and>
   parseGitHubUrl ''https://github.com/acme/widget/pull/42'' =
     Some \<lparr>owner = ''acme'', repo = ''widget'', pull_number = 42\<rparr> \<and>
   parseGitHubUrl ''https://github.com/acme/widget'' = None"
proof (intro conjI allI impI)
  show "(parseGitHubUrl url \<noteq> None) =
     (\<exists>pre ow rp ds post.
        url = pre @ ''github.com/'' @ ow @ ''/'' @ rp @ ''/pull/'' @ ds @ post \<and>
        ow \<noteq> [] \<and> CHR ''/'' \<notin> set ow \<and> rp \<noteq> [] \<and> CHR ''/'' \<notin> set rp \<and> digits ds)"
  proof
    assume "parseGitHubUrl url \<noteq> None"
    then obtain m1 m2 m3 where "urlMatch url = Some (m1, m2, m3)"
      by (auto simp: parseGitHubUrl_def split: option.splits)
    from urlMatch_Some [OF this] obtain pre t where
      u: "url = pre @ t" and t: "urlAt t = Some (m1, m2, m3)" by blast
    from urlAt_Some [OF t] u show "\<exists>pre ow rp ds post.
        url = pre @ ''github.com/'' @ ow @ ''/'' @ rp @ ''/pull/'' @ ds @ post \<and>
        ow \<noteq> [] \<and> CHR ''/'' \<notin> set ow \<and> rp \<noteq> [] \<and> CHR ''/'' \<notin> set rp \<and> digits ds"
      by blast
  next
    assume "\<exists>pre ow rp ds post.
        url = pre @ ''github.com/'' @ ow @ ''/'' @ rp @ ''/pull/'' @ ds @ post \<and>
        ow \<noteq> [] \<and> CHR ''/'' \<notin> set ow \<and> rp \<noteq> [] \<and> CHR ''/'' \<notin> set rp \<and> digits ds"
    then obtain pre ow rp ds post where
      u: "url = pre @ (''github.com/'' @ ow @ ''/'' @ rp @ ''/pull/'' @ ds @ post)" and
      c: "ow \<noteq> []" "CHR ''/'' \<notin> set ow" "rp \<noteq> []" "CHR ''/'' \<notin> set rp" "digits ds"
      by auto
    have "urlMatch url \<noteq> None"
      unfolding u by (rule urlMatch_complete [OF urlAt_complete [OF c]])
    then show "parseGitHubUrl url \<noteq> None"
      by (auto simp: parseGitHubUrl_def split: option.splits)
  qed
next
  fix r assume r: "parseGitHubUrl url = Some r"
  then obtain m1 m2 m3 where m: "urlMatch url = Some (m1, m2, m3)"
    and r': "r = \<lparr>owner = m1, repo = m2, pull_number = parseInt m3\<rparr>"
    by (auto simp: parseGitHubUrl_def split: option.splits)
  from urlMatch_Some [OF m] obtain pre t where
    u: "url = pre @ t" and t: "urlAt t = Some (m1, m2, m3)" by blast
  from urlAt_Some [OF t] obtain post where
    p: "t = ''github.com/'' @ m1 @ ''/'' @ m2 @ ''/pull/'' @ m3 @ post"
      "m1 \<noteq> []" "CHR ''/'' \<notin> set m1" "m2 \<noteq> []" "CHR ''/'' \<notin> set m2" "digits m3"
      "post = [] \<or> \<not> isDigit (hd post)" by blast
  show "0 \<le> pull_number r"
    using p(6) r' by (simp add: digits_def parseInt_nonneg)
  show "\<exists>pre ds post.
         url = pre @ ''github.com/'' @ owner r @ ''/'' @ repo r @ ''/pull/'' @ ds @ post \<and>
         owner r \<noteq> [] \<and> CHR ''/'' \<notin> set (owner r) \<and> repo r \<noteq> [] \<and> CHR ''/'' \<notin> set (repo r) \<and>
         digits ds \<and> (post = [] \<or> \<not> isDigit (hd post)) \<and> pull_number r = parseInt ds"
    using u p r' by (intro exI [of _ pre] exI [of _ m3] exI [of _ post]) simp
next
  show "parseGitHubUrl ''https://github.com/acme/widget/pull/42'' =
     Some \<lparr>owner = ''acme'', repo = ''widget'', pull_number = 42\<rparr>"
    by (simp add: url_defs)
  show "parseGitHubUrl ''https://github.com/acme/widget'' = None"
    by (simp add: url_defs)
qed

theorem parseGitHubUrl_finds_coordinates_witness:
  "parseGitHubUrl ''see github.com/acme/widget/pull/42/files'' =
     Some \<lparr>owner = ''acme'', repo = ''widget'', pull_number = 42\<rparr>"
  using parseGitHubUrl_finds_coordinates [of "''see github.com/acme/widget/pull/42/files''"]
  by (simp add: url_defs)

text \<open>
  Claim C8 as stated fails in three ways. A URL of the stated form on another host is refused;
  a string that is not of the stated form (text before the host, a path after the number) is
  accepted; and the pull number of an accepted URL can be 0, which is not positive.
\<close>

theorem parseGitHubUrl_not_exactly_spec_form:
  "specUrlForm ''https://gitlab.com/acme/widget/pull/42'' \<and>
   parseGitHubUrl ''https://gitlab.com/acme/widget/pull/42'' = None \<and>
   \<not> specUrlForm ''see github.com/acme/widget/pull/42/files'' \<and>
   parseGitHubUrl ''see github.com/acme/widget/pull/42/files'' =
     Some \<lparr>owner = ''acme'', repo = ''widget'', pull_number = 42\<rparr> \<and>
   parseGitHubUrl ''https://github.com/acme/widget/pull/0'' =
     Some \<lparr>owner = ''acme'', repo = ''widget'', pull_number = 0\<rparr>"
  by (simp add: url_defs)

section \<open>Properties of the review pipeline\<close>

lemmas json_defs =
  JSON_parse_def isSpace_def isLetter_def isWordChar_def isDigit_def validExp_def validFrac_def
  validNumber_def wordToken_def hexVal_def utf8_def lexIdle_def lexEscape_def startValue_def
  startKey_def afterValue_def Let_def

lemmas pipeline_defs =
  generateReview_def contextRequest_def initialRequest_def refinementRequest_def
  logInteraction_def stubEndpoint_def validAgainstSchema_def conformsReview_def
  conformsImprovement_def member_def isString_def isNumber_def

lemma JSON_parse_not_json: "JSON_parse ''nope'' = None"
  by (simp add: json_defs)

lemma JSON_parse_empty_review:
  \<open>JSON_parse ''{"strengths":[],"improvements":[]}'' =
     Some (JObject [(''strengths'', JArray []), (''improvements'', JArray [])])\<close>
  by (simp add: json_defs)

text \<open>
  Claim C6 as stated fails: a stage-2 response that is not valid against the schema (here the
  text \<open>nope\<close>, which is not even JSON) does not end the run. The text is logged, the stage-3
  request is made with it, and the run succeeds with what stage 3 answers; the log has three
  entries.
\<close>

theorem invalid_stage2_text_reaches_stage3:
  \<open>\<not> validAgainstSchema ''nope'' \<and>
   requestsOf (fst (generateReview ''key''
       (stubEndpoint (Inr ''summary'') (Inr ''nope'')
          (Inr ''{"strengths":[],"improvements":[]}''))
       ''title'' ''body'' ''diff'' ''readme'' ''files'' ''gemini-2.5-pro'')) =
     [contextRequest ''gemini-2.5-pro'' ''title'' ''body'' ''readme'' ''files'' ''diff'',
      initialRequest ''gemini-2.5-pro'' ''summary'' ''diff'',
      refinementRequest ''gemini-2.5-pro'' ''summary'' ''nope'' ''diff''] \<and>
   map step (logOf (fst (generateReview ''key''
       (stubEndpoint (Inr ''summary'') (Inr ''nope'')
          (Inr ''{"strengths":[],"improvements":[]}''))
       ''title'' ''body'' ''diff'' ''readme'' ''files'' ''gemini-2.5-pro''))) =
     [''Context Gathering'', ''Initial Review'', ''Refinement''] \<and>
   snd (generateReview ''key''
       (stubEndpoint (Inr ''summary'') (Inr ''nope'')
          (Inr ''{"strengths":[],"improvements":[]}''))
       ''title'' ''body'' ''diff'' ''readme'' ''files'' ''gemini-2.5-pro'') =
     Inr (JObject [(''strengths'', JArray []), (''improvements'', JArray [])], ''summary'')\<close>
  by (simp add: pipeline_defs JSON_parse_not_json JSON_parse_empty_review)

text \<open>
  Claim C6, as the code has it. A stage fails when its request is rejected or, for stage 3,
  when its text is not JSON; the text of the stage-2 response is not examined. In every run
  each request that is answered is followed at once by the log entry that holds its prompt and
  the response it received, before the next stage starts and, for stage 3, before the text is
  parsed: the stage-3 entry is in the log also when the run then fails on that text. A request
  that is rejected ends the run with that failure, no later request is made, and the rejected
  attempt leaves no entry: when the stage-2 request is rejected, the requests made are those
  of stage 1 and stage 2 and the log holds the stage-1 entry alone. When stage 2 is answered,
  whatever the text, the stage-3 request is made with that text embedded, after the entries of
  stage 1 and stage 2 have been logged. The four conjuncts after the first give the whole
  sequence of requests and log entries for each way the three requests can end.
\<close>

theorem stage2_failure_and_eager_logging:
  assumes "apiKey \<noteq> []"
  shows "loggedBeforeNext ai (fst (generateReview apiKey ai title body diff readme files mdl)) \<and>
    (\<forall>e. ai (contextRequest mdl title body readme files diff) = Inl e \<longrightarrow>
       generateReview apiKey ai title body diff readme files mdl =
         ([Requested (contextRequest mdl title body readme files diff)], Inl e)) \<and>
    (\<forall>summary e.
       ai (contextRequest mdl title body readme files diff) = Inr summary \<and>
       ai (initialRequest mdl summary diff) = Inl e \<longrightarrow>
       generateReview apiKey ai title body diff readme files mdl =
         ([Requested (contextRequest mdl title body readme files diff),
           logInteraction ''Context Gathering''
             (contextRequest mdl title body readme files diff) summary,
           Requested (initialRequest mdl summary diff)],
          Inl e)) \<and>
    (\<forall>summary t2 e.
       ai (contextRequest mdl title body readme files diff) = Inr summary \<and>
       ai (initialRequest mdl summary diff) = Inr t2 \<and>
       ai (refinementRequest mdl summary t2 diff) = Inl e \<longrightarrow>
       generateReview apiKey ai title body diff readme files mdl =
         ([Requested (contextRequest mdl title body readme files diff),
           logInteraction ''Context Gathering''
             (contextRequest mdl title body readme files diff) summary,
           Requested (initialRequest mdl summary diff),
           logInteraction ''Initial Review'' (initialRequest mdl summary diff) t2,
           Requested (refinementRequest mdl summary t2 diff)],
          Inl e)) \<and>
    (\<forall>summary t2 t3.
       ai (contextRequest mdl title body readme files diff) = Inr summary \<and>
       ai (initialRequest mdl summary diff) = Inr t2 \<and>
       ai (refinementRequest mdl summary t2 diff) = Inr t3 \<longrightarrow>
       generateReview apiKey ai title body diff readme files mdl =
         ([Requested (contextRequest mdl title body readme files diff),
           logInteraction ''Context Gathering''
             (contextRequest mdl title body readme files diff) summary,
           Requested (initialRequest mdl summary diff),
           logInteraction ''Initial Review'' (initialRequest mdl summary diff) t2,
           Requested (refinementRequest mdl summary t2 diff),
           logInteraction ''Refinement'' (refinementRequest mdl summary t2 diff) t3],
          case JSON_parse t3 of
            None \<Rightarrow> Inl SyntaxError
          | Some review \<Rightarrow> Inr (review, summary)))"
proof (intro conjI allI impI)
  show "loggedBeforeNext ai (fst (generateReview apiKey ai title body diff readme files mdl))"
    using assms
    by (auto simp: generateReview_def Let_def logInteraction_def split: sum.splits)
qed (use assms in \<open>simp_all add: generateReview_def Let_def\<close>)

theorem stage2_failure_and_eager_logging_witness:
  \<open>generateReview ''key'' (stubEndpoint (Inr ''summary'') (Inl (RequestFailed ''503'')) (Inr ''{}''))
       ''title'' ''body'' ''diff'' ''readme'' ''files'' ''gemini-2.5-pro'' =
     ([Requested (contextRequest ''gemini-2.5-pro'' ''title'' ''body'' ''readme'' ''files'' ''diff''),
       Logged \<lparr>step = ''Context Gathering'',
               prompt = ContextPrompt ''title'' ''body'' ''readme'' ''files'' ''diff'',
               response = ''summary''\<rparr>,
       Requested (initialRequest ''gemini-2.5-pro'' ''summary'' ''diff'')],
      Inl (RequestFailed ''503'')) \<and>
   generateReview ''key'' (stubEndpoint (Inr ''summary'') (Inr ''nope'') (Inr ''nope''))
       ''title'' ''body'' ''diff'' ''readme'' ''files'' ''gemini-2.5-pro'' =
     ([Requested (contextRequest ''gemini-2.5-pro'' ''title'' ''body'' ''readme'' ''files'' ''diff''),
       Logged \<lparr>step = ''Context Gathering'',
               prompt = ContextPrompt ''title'' ''body'' ''readme'' ''files'' ''diff'',
               response = ''summary''\<rparr>,
       Requested (initialRequest ''gemini-2.5-pro'' ''summary'' ''diff''),
       Logged \<lparr>step = ''Initial Review'',
               prompt = InitialPrompt ''summary'' ''diff'',
               response = ''nope''\<rparr>,
       Requested (refinementRequest ''gemini-2.5-pro'' ''summary'' ''nope'' ''diff''),
       Logged \<lparr>step = ''Refinement'',
               prompt = RefinementPrompt ''summary'' ''nope'' ''diff'',
               response = ''nope''\<rparr>],
      Inl SyntaxError) \<and>
   loggedBeforeNext (stubEndpoint (Inr ''summary'') (Inr ''nope'') (Inr ''nope''))
     (fst (generateReview ''key'' (stubEndpoint (Inr ''summary'') (Inr ''nope'') (Inr ''nope''))
       ''title'' ''body'' ''diff'' ''readme'' ''files'' ''gemini-2.5-pro''))\<close>
proof -
  have k: "''key'' \<noteq> []" by simp
  let ?A = "stubEndpoint (Inr ''summary'') (Inl (RequestFailed ''503'')) (Inr ''{}'')"
  let ?B = "stubEndpoint (Inr ''summary'') (Inr ''nope'') (Inr ''nope'')"
  have a: "?A (contextRequest ''gemini-2.5-pro'' ''title'' ''body'' ''readme'' ''files'' ''diff'')
           = Inr ''summary'' \<and>
           ?A (initialRequest ''gemini-2.5-pro'' ''summary'' ''diff'') = Inl (RequestFailed ''503'')"
    by (simp add: stubEndpoint_def contextRequest_def initialRequest_def)
  have b: "?B (contextRequest ''gemini-2.5-pro'' ''title'' ''body'' ''readme'' ''files'' ''diff'')
           = Inr ''summary'' \<and>
           ?B (initialRequest ''gemini-2.5-pro'' ''summary'' ''diff'') = Inr ''nope'' \<and>
           ?B (refinementRequest ''gemini-2.5-pro'' ''summary'' ''nope'' ''diff'') = Inr ''nope''"
    by (simp add: stubEndpoint_def contextRequest_def initialRequest_def refinementRequest_def)
  note A = stage2_failure_and_eager_logging
      [where apiKey = "''key''" and mdl = "''gemini-2.5-pro''" and ai = ?A
         and title = "''title''" and body = "''body''" and readme = "''readme''"
         and files = "''files''" and diff = "''diff''", OF k]
  note B = stage2_failure_and_eager_logging
      [where apiKey = "''key''" and mdl = "''gemini-2.5-pro''" and ai = ?B
         and title = "''title''" and body = "''body''" and readme = "''readme''"
         and files = "''files''" and diff = "''diff''", OF k]
  have 1: "generateReview ''key'' ?A ''title'' ''body'' ''diff'' ''readme'' ''files'' ''gemini-2.5-pro'' =
     ([Requested (contextRequest ''gemini-2.5-pro'' ''title'' ''body'' ''readme'' ''files'' ''diff''),
       logInteraction ''Context Gathering''
         (contextRequest ''gemini-2.5-pro'' ''title'' ''body'' ''readme'' ''files'' ''diff'') ''summary'',
       Requested (initialRequest ''gemini-2.5-pro'' ''summary'' ''diff'')],
      Inl (RequestFailed ''503''))"
    using A a by blast
  have 2: "generateReview ''key'' ?B ''title'' ''body'' ''diff'' ''readme'' ''files'' ''gemini-2.5-pro'' =
     ([Requested (contextRequest ''gemini-2.5-pro'' ''title'' ''body'' ''readme'' ''files'' ''diff''),
       logInteraction ''Context Gathering''
         (contextRequest ''gemini-2.5-pro'' ''title'' ''body'' ''readme'' ''files'' ''diff'') ''summary'',
       Requested (initialRequest ''gemini-2.5-pro'' ''summary'' ''diff''),
       logInteraction ''Initial Review'' (initialRequest ''gemini-2.5-pro'' ''summary'' ''diff'') ''nope'',
       Requested (refinementRequest ''gemini-2.5-pro'' ''summary'' ''nope'' ''diff''),
       logInteraction ''Refinement''
         (refinementRequest ''gemini-2.5-pro'' ''summary'' ''nope'' ''diff'') ''nope''],
      case JSON_parse ''nope'' of
        None \<Rightarrow> Inl SyntaxError
      | Some review \<Rightarrow> Inr (review, ''summary''))"
    using B b by blast
  have 3: "loggedBeforeNext ?B (fst (generateReview ''key'' ?B ''title'' ''body'' ''diff'' ''readme'' ''files'' ''gemini-2.5-pro''))"
    using B by blast
  show ?thesis
    unfolding 1 2 using 3 [unfolded 2]
    by (simp add: logInteraction_def contextRequest_def initialRequest_def refinementRequest_def
          JSON_parse_not_json)
qed

lemma JSON_parse_improvements_only:
  \<open>JSON_parse ''{"improvements":[]}'' = Some (JObject [(''improvements'', JArray [])])\<close>
  by (simp add: json_defs)

text \<open>
  Claim C7 as stated fails: the final text \<open>{"improvements":[]}\<close> is JSON but is not valid
  against the review schema, which requires \<open>strengths\<close>, and the pipeline returns its value as
  the review.
\<close>

theorem schema_invalid_final_text_is_returned:
  \<open>\<not> validAgainstSchema ''{"improvements":[]}'' \<and>
   snd (generateReview ''key''
       (stubEndpoint (Inr ''summary'') (Inr ''{"strengths":[],"improvements":[]}'')
          (Inr ''{"improvements":[]}''))
       ''title'' ''body'' ''diff'' ''readme'' ''files'' ''gemini-2.5-pro'') =
     Inr (JObject [(''improvements'', JArray [])], ''summary'')\<close>
  by (simp add: pipeline_defs JSON_parse_improvements_only)

text \<open>
  Claim C7, as the code has it. When the three requests are answered, each stage has been
  requested exactly once, and the outcome is decided by \<open>JSON.parse\<close> alone on the final text:
  a text that is not JSON makes the run fail with the parser's error, and no review is
  returned; a text that is JSON is returned as the review with the context summary, whether
  or not its value conforms to the review schema.
\<close>

theorem final_text_is_only_parsed:
  assumes "apiKey \<noteq> []"
    and "ai (contextRequest mdl title body readme files diff) = Inr summary"
    and "ai (initialRequest mdl summary diff) = Inr t2"
    and "ai (refinementRequest mdl summary t2 diff) = Inr t3"
  shows "requestsOf (fst (generateReview apiKey ai title body diff readme files mdl)) =
           [contextRequest mdl title body readme files diff,
            initialRequest mdl summary diff,
            refinementRequest mdl summary t2 diff] \<and>
         (JSON_parse t3 = None \<longrightarrow>
            snd (generateReview apiKey ai title body diff readme files mdl) = Inl SyntaxError) \<and>
         (\<forall>review. JSON_parse t3 = Some review \<longrightarrow>
            snd (generateReview apiKey ai title body diff readme files mdl) =
              Inr (review, summary))"
  using assms
  by (simp add: generateReview_def Let_def logInteraction_def)

theorem final_text_is_only_parsed_witness:
  \<open>snd (generateReview ''key''
       (stubEndpoint (Inr ''summary'') (Inr ''{}'') (Inr ''nope''))
       ''title'' ''body'' ''diff'' ''readme'' ''files'' ''gemini-2.5-pro'') = Inl SyntaxError \<and>
   requestsOf (fst (generateReview ''key''
       (stubEndpoint (Inr ''summary'') (Inr ''{}'') (Inr ''nope''))
       ''title'' ''body'' ''diff'' ''readme'' ''files'' ''gemini-2.5-pro'')) =
     [contextRequest ''gemini-2.5-pro'' ''title'' ''body'' ''readme'' ''files'' ''diff'',
      initialRequest ''gemini-2.5-pro'' ''summary'' ''diff'',
      refinementRequest ''gemini-2.5-pro'' ''summary'' ''{}'' ''diff'']\<close>
proof -
  have k: "''key'' \<noteq> []" by simp
  have a: "stubEndpoint (Inr ''summary'') (Inr ''{}'') (Inr ''nope'')
             (contextRequest ''gemini-2.5-pro'' ''title'' ''body'' ''readme'' ''files'' ''diff'')
           = Inr ''summary''"
    by (simp add: stubEndpoint_def contextRequest_def)
  have b: "stubEndpoint (Inr ''summary'') (Inr ''{}'') (Inr ''nope'')
             (initialRequest ''gemini-2.5-pro'' ''summary'' ''diff'') = Inr ''{}''"
    by (simp add: stubEndpoint_def initialRequest_def)
  have c: "stubEndpoint (Inr ''summary'') (Inr ''{}'') (Inr ''nope'')
             (refinementRequest ''gemini-2.5-pro'' ''summary'' ''{}'' ''diff'') = Inr ''nope''"
    by (simp add: stubEndpoint_def refinementRequest_def)
  show ?thesis
    using final_text_is_only_parsed
      [where apiKey = "''key''" and summary = "''summary''" and mdl = "''gemini-2.5-pro''"
         and ai = "stubEndpoint (Inr ''summary'') (Inr ''{}'') (Inr ''nope'')"
         and title = "''title''" and body = "''body''" and readme = "''readme''"
         and files = "''files''" and diff = "''diff''" and ?t2.0 = "''{}''"
         and ?t3.0 = "''nope''", OF k a b c] JSON_parse_not_json
    by simp
qed

section \<open>Properties of the content hash and the deep link\<close>

















section \<open>Properties of the code snippet\<close>

lemmas snippet_defs =
  copilotCodeSnippet_def filePattern_def isMeta_def classPlain_def isLetter_def isDigit_def
  slice_array_def startsWith_def contextWindow_def Let_def

lemma numbered_window:
  "map snd (filter (\<lambda>(i, _). lo \<le> i \<and> i \<le> hi) (numbered n xs)) =
     take (nat (hi + 1 - max lo n)) (drop (nat (lo - n)) xs)"
proof (induction xs arbitrary: n)
  case Nil
  then show ?case by simp
next
  case (Cons x xs)
  consider "n < lo" | "lo \<le> n" "n \<le> hi" | "lo \<le> n" "hi < n" by linarith
  then show ?case
  proof cases
    case 1
    then have "nat (lo - n) = Suc (nat (lo - (n + 1)))" by linarith
    moreover have "max lo n = max lo (n + 1)" using 1 by linarith
    ultimately show ?thesis using 1 Cons.IH [of "n + 1"] by simp
  next
    case 2
    then have "nat (lo - n) = 0" "nat (lo - (n + 1)) = 0" by linarith+
    moreover have "max lo n = n" "max lo (n + 1) = n + 1" using 2 by linarith+
    moreover have "nat (hi + 1 - n) = Suc (nat (hi + 1 - (n + 1)))" using 2 by linarith
    ultimately show ?thesis using 2 Cons.IH [of "n + 1"] by simp
  next
    case 3
    then have "nat (hi + 1 - max lo n) = 0" "nat (hi + 1 - max lo (n + 1)) = 0" by linarith+
    then show ?thesis using 3 Cons.IH [of "n + 1"] by simp
  qed
qed

lemma take_eq_take: "min a (length xs) = min b (length xs) \<Longrightarrow> take a xs = take b xs"
  by (metis take_all_iff min.commute min_def nat_le_linear)

lemma slice_window:
  assumes "- 5 \<le> ln"
  shows "slice_array lines (max 0 (ln - 1 - 5)) (min (int (length lines)) (ln - 1 + 5 + 1)) =
         contextWindow lines ln"
proof -
  let ?n = "int (length lines)"
  let ?s = "max 0 (ln - 1 - 5)" and ?e = "min ?n (ln - 1 + 5 + 1)"
  have s0: "\<not> ?s < 0" and e0: "\<not> ?e < 0" using assms by auto
  have lhs: "slice_array lines ?s ?e = take (nat (min ?e ?n - min ?s ?n)) (drop (nat (min ?s ?n)) lines)"
    unfolding slice_array_def Let_def using s0 e0 by (simp only: if_False)
  have rhs: "contextWindow lines ln =
               take (nat (ln + 5 + 1 - max (ln - 5) 1)) (drop (nat (ln - 5 - 1)) lines)"
    unfolding contextWindow_def by (rule numbered_window)
  show ?thesis
  proof (cases "ln - 6 \<le> ?n")
    case True
    then have d: "nat (min ?s ?n) = nat (ln - 5 - 1)" by linarith
    have "min (nat (min ?e ?n - min ?s ?n)) (length (drop (nat (ln - 5 - 1)) lines)) =
          min (nat (ln + 5 + 1 - max (ln - 5) 1)) (length (drop (nat (ln - 5 - 1)) lines))"
      using True assms by (simp add: min_def max_def) linarith
    then show ?thesis unfolding lhs rhs d by (rule take_eq_take)
  next
    case False
    then have "drop (nat (min ?s ?n)) lines = []" "drop (nat (ln - 5 - 1)) lines = []"
      by auto
    then show ?thesis unfolding lhs rhs by simp
  qed
qed

lemma matchPrefix_compilePath:
  assumes "compilePath None g = Some gp" and "CHR ''['' \<notin> set g"
  shows "matchPrefix (gp @ p) (g @ r) = matchPrefix p r"
  using assms
proof (induction g arbitrary: gp)
  case Nil
  then show ?case by simp
next
  case (Cons c g)
  from Cons.prems obtain gp' where g: "compilePath None g = Some gp'"
    and gp: "gp = (if c = CHR ''.'' then AnyChar else Lit c) # gp'"
    by (auto split: if_splits)
  have "matchPrefix (gp' @ p) (g @ r) = matchPrefix p r"
    using Cons.IH [OF g] Cons.prems(2) by simp
  then show ?case unfolding gp by simp
qed

lemma matchPrefix_literal:
  assumes "filePattern f = Some fp" and "CHR ''['' \<notin> set f"
  shows "matchPrefix (map Lit a @ fp @ map Lit b) (a @ f @ b @ post) = Some post"
proof -
  have lit: "matchPrefix (map Lit xs @ p) (xs @ r) = matchPrefix p r" for xs p r
    by (induction xs) simp_all
  have "matchPrefix (map Lit b) (b @ post) = Some post"
    using lit [of b "[]" post] by simp
  then show ?thesis
    using assms by (simp add: lit matchPrefix_compilePath filePattern_def)
qed

lemma findBlock_complete: "matchPrefix p t \<noteq> None \<Longrightarrow> findBlock p (pre @ t) \<noteq> None"
proof (induction pre)
  case Nil
  then show ?case by (cases t) auto
next
  case (Cons c pre)
  then show ?case by (auto split: option.splits)
qed

lemma findBlock_Some:
  "findBlock p s = Some rest \<Longrightarrow> \<exists>pre t. s = pre @ t \<and> matchPrefix p t = Some rest"
proof (induction s)
  case Nil
  then show ?case by simp
next
  case (Cons c cs)
  show ?case
  proof (cases "matchPrefix p (c # cs)")
    case None
    with Cons.prems have "findBlock p cs = Some rest" by simp
    from Cons.IH [OF this] obtain pre t where "cs = pre @ t" "matchPrefix p t = Some rest"
      by blast
    then have "c # cs = (c # pre) @ t \<and> matchPrefix p t = Some rest" by simp
    then show ?thesis by blast
  next
    case (Some r)
    with Cons.prems have "c # cs = [] @ (c # cs) \<and> matchPrefix p (c # cs) = Some rest" by simp
    then show ?thesis by blast
  qed
qed

text \<open>
  What holds for every path inside the model. When no place of the concatenated snapshots
  matches the header pattern, or the content found after the header is empty, the operation
  fails with the error \<open>Could not find content for file\<close>. Otherwise, for a line of at least
  \<open>-5\<close>, the snippet is made of the lines of the matched block, numbered from 1, whose number
  is at most 5 away from the finding's line. For a path without a bracket the header of the
  finding's own file, when it occurs, is matched by the pattern, though an earlier place may
  be matched as well.
\<close>

lemma snippet_is_window_of_matched_block:
  assumes "filePattern (file improvement) = Some fp"
  shows
    "(findBlock (map Lit ''--- File: '' @ fp @ map Lit '' ---\<newline>'') masterFilesContent = None \<longrightarrow>
        copilotCodeSnippet masterFilesContent improvement =
          Some (Inl (ContentNotFound (file improvement)))) \<and>
     (\<forall>rest. findBlock (map Lit ''--- File: '' @ fp @ map Lit '' ---\<newline>'') masterFilesContent
               = Some rest \<longrightarrow>
        (blockContent rest = [] \<longrightarrow>
           copilotCodeSnippet masterFilesContent improvement =
             Some (Inl (ContentNotFound (file improvement)))) \<and>
        (blockContent rest \<noteq> [] \<and> - 5 \<le> line improvement \<longrightarrow>
           copilotCodeSnippet masterFilesContent improvement =
             Some (Inr (join ''\<newline>''
                     (contextWindow (splitOn CHR ''\<newline>'' (blockContent rest))
                        (line improvement)))))) \<and>
     (\<forall>pre post. CHR ''['' \<notin> set (file improvement) \<and>
        masterFilesContent = pre @ ''--- File: '' @ file improvement @ '' ---\<newline>'' @ post \<longrightarrow>
        findBlock (map Lit ''--- File: '' @ fp @ map Lit '' ---\<newline>'') masterFilesContent \<noteq> None)"
proof (intro conjI allI impI)
  assume "findBlock (map Lit ''--- File: '' @ fp @ map Lit '' ---\<newline>'') masterFilesContent = None"
  then show "copilotCodeSnippet masterFilesContent improvement =
          Some (Inl (ContentNotFound (file improvement)))"
    using assms by (simp add: copilotCodeSnippet_def)
next
  fix rest
  assume f: "findBlock (map Lit ''--- File: '' @ fp @ map Lit '' ---\<newline>'') masterFilesContent
               = Some rest"
  {
    assume "blockContent rest = []"
    then show "copilotCodeSnippet masterFilesContent improvement =
             Some (Inl (ContentNotFound (file improvement)))"
      using assms f by (simp add: copilotCodeSnippet_def)
  }
  {
    assume a: "blockContent rest \<noteq> [] \<and> - 5 \<le> line improvement"
    then have "slice_array (splitOn CHR ''\<newline>'' (blockContent rest))
                 (max 0 (line improvement - 1 - 5))
                 (min (int (length (splitOn CHR ''\<newline>'' (blockContent rest))))
                    (line improvement - 1 + 5 + 1)) =
               contextWindow (splitOn CHR ''\<newline>'' (blockContent rest)) (line improvement)"
      by (intro slice_window) simp
    then show "copilotCodeSnippet masterFilesContent improvement =
             Some (Inr (join ''\<newline>''
                     (contextWindow (splitOn CHR ''\<newline>'' (blockContent rest))
                        (line improvement))))"
      using assms f a by (simp add: copilotCodeSnippet_def Let_def)
  }
next
  fix pre post
  assume b: "CHR ''['' \<notin> set (file improvement) \<and>
    masterFilesContent = pre @ ''--- File: '' @ file improvement @ '' ---\<newline>'' @ post"
  then have m: "masterFilesContent =
      pre @ ''--- File: '' @ file improvement @ '' ---\<newline>'' @ post" by simp
  have "matchPrefix (map Lit ''--- File: '' @ fp @ map Lit '' ---\<newline>'')
          (''--- File: '' @ file improvement @ '' ---\<newline>'' @ post) = Some post"
    using assms b by (intro matchPrefix_literal) simp_all
  then have "findBlock (map Lit ''--- File: '' @ fp @ map Lit '' ---\<newline>'')
               (pre @ (''--- File: '' @ file improvement @ '' ---\<newline>'' @ post)) \<noteq> None"
    by (intro findBlock_complete) simp
  then show "findBlock (map Lit ''--- File: '' @ fp @ map Lit '' ---\<newline>'') masterFilesContent \<noteq> None"
    unfolding m by simp
qed

text \<open>
  Every finding that the validator keeps against a table made by the parser has a line that
  is not negative, so the bound on the line above holds for the findings shown to the user.
\<close>

lemma hunkAt_digits: "hunkAt s = Some (m1, m2) \<Longrightarrow> list_all isDigit m1"
  by (auto simp: hunkAt_def digits_def split: option.splits prod.splits
           dest!: digitsPlus_Some)

lemma hunkMatch_digits: "hunkMatch s = Some (m1, m2) \<Longrightarrow> list_all isDigit m1"
  by (induction s) (auto split: option.splits dest: hunkAt_digits)

lemma parseLine_nonneg:
  assumes "parseLine st l = Inr st'"
    and "\<forall>p rs. fst st p = Some rs \<longrightarrow> (\<forall>r \<in> set rs. 0 \<le> rstart r)"
  shows "\<forall>p rs. fst st' p = Some rs \<longrightarrow> (\<forall>r \<in> set rs. 0 \<le> rstart r)"
proof (cases st)
  case (Pair ranges cur)
  have e: "\<And>p rs r. ranges p = Some rs \<Longrightarrow> r \<in> set rs \<Longrightarrow> 0 \<le> rstart r"
    using assms(2) Pair by auto
  show ?thesis
  proof (cases "startsWith l ''+++ b/''")
    case True
    then have "fst st' = ranges \<or> fst st' = ranges(drop 6 l \<mapsto> [])"
      using assms(1) Pair by (auto simp: parseLine_def Let_def split: if_splits)
    then show ?thesis using e by (auto split: if_splits)
  next
    case False
    then have "fst st' = ranges \<or>
      (\<exists>f rs m1 m2 n. ranges f = Some rs \<and> hunkMatch l = Some (m1, m2) \<and>
         fst st' = ranges(f \<mapsto> rs @ [\<lparr>rstart = parseInt m1, rend = n\<rparr>]))"
      using assms(1) Pair
      by (auto simp: parseLine_def push_def getProp_def Let_def
               split: option.splits prod.splits if_splits) blast+
    then show ?thesis
    proof
      assume "fst st' = ranges"
      then show ?thesis using e by auto
    next
      assume "\<exists>f rs m1 m2 n. ranges f = Some rs \<and> hunkMatch l = Some (m1, m2) \<and>
         fst st' = ranges(f \<mapsto> rs @ [\<lparr>rstart = parseInt m1, rend = n\<rparr>])"
      then obtain f rs m1 m2 n where f: "ranges f = Some rs" "hunkMatch l = Some (m1, m2)"
        "fst st' = ranges(f \<mapsto> rs @ [\<lparr>rstart = parseInt m1, rend = n\<rparr>])" by blast
      have "0 \<le> parseInt m1" using hunkMatch_digits [OF f(2)] by (rule parseInt_nonneg)
      then show ?thesis using e f(1) unfolding f(3) by (auto split: if_splits)
    qed
  qed
qed

lemma parseLines_nonneg:
  assumes "parseLines st ls = Inr st'"
    and "\<forall>p rs. fst st p = Some rs \<longrightarrow> (\<forall>r \<in> set rs. 0 \<le> rstart r)"
  shows "\<forall>p rs. fst st' p = Some rs \<longrightarrow> (\<forall>r \<in> set rs. 0 \<le> rstart r)"
  using assms
proof (induction ls arbitrary: st)
  case Nil
  then show ?case by simp
next
  case (Cons l ls)
  from Cons.prems(1) obtain st1 where 1: "parseLine st l = Inr st1" "parseLines st1 ls = Inr st'"
    by (auto split: sum.splits)
  show ?case
    by (rule Cons.IH [OF 1(2) parseLine_nonneg [OF 1(1) Cons.prems(2)]])
qed

lemma kept_findings_have_nonnegative_lines:
  assumes "parseDiffToValidLineRanges d = Inr t" and "keepImprovement t item = Inr True"
  shows "0 \<le> line item"
proof -
  from assms(1) obtain st' where st': "parseLines (Map.empty, None) (splitOn CHR ''\<newline>'' d) = Inr st'"
    and t: "t = fst st'"
    by (auto simp: parseDiffToValidLineRanges_def split: sum.splits prod.splits)
  have "\<forall>p rs. fst st' p = Some rs \<longrightarrow> (\<forall>r \<in> set rs. 0 \<le> rstart r)"
    by (rule parseLines_nonneg [OF st']) simp
  then show ?thesis
    using assms(2) unfolding t
    by (fastforce simp: keepImprovement_def getProp_def list_ex_iff
                  split: option.splits if_splits)
qed

text \<open>
  Claim C9. The claim says that the snippet is the window around the finding's line in the
  snapshot of the finding's file, and that the operation fails only when that snapshot cannot
  be located. The path is put into the pattern unescaped. Each dot of the path matches any
  character: with the snapshots of \<open>v1-0/x.md\<close> and \<open>v1.0/x.md\<close> concatenated in this order,
  the leftmost match for the finding in \<open>v1.0/x.md\<close> is the block of \<open>v1-0/x.md\<close>, and the
  snippet is taken from that other file, while with the block of \<open>v1.0/x.md\<close> alone the
  snippet is the expected one. Brackets in the path form a character class: the snapshot of
  \<open>app/[id]/page.tsx\<close> is present, yet the operation fails with the error of a missing
  snapshot.
\<close>

theorem dotted_path_matches_other_snapshot:
  "copilotCodeSnippet
     ''--- File: v1-0/x.md ---\<newline>old\<newline>\<newline>--- File: v1.0/x.md ---\<newline>new\<newline>\<newline>''
     \<lparr>line = 1, file = ''v1.0/x.md'', category = ''Style'', comment = ''c'', link = None\<rparr>
   = Some (Inr ''old\<newline>'') \<and>
   copilotCodeSnippet
     ''--- File: v1.0/x.md ---\<newline>new\<newline>\<newline>''
     \<lparr>line = 1, file = ''v1.0/x.md'', category = ''Style'', comment = ''c'', link = None\<rparr>
   = Some (Inr ''new\<newline>\<newline>'') \<and>
   copilotCodeSnippet
     ''--- File: app/[id]/page.tsx ---\<newline>export default 1\<newline>\<newline>''
     \<lparr>line = 1, file = ''app/[id]/page.tsx'', category = ''Style'', comment = ''c'', link = None\<rparr>
   = Some (Inl (ContentNotFound ''app/[id]/page.tsx''))"
  by (simp add: snippet_defs)

end
